theory Spec2Isabelle
  imports Complex_Main "HOL-Library.Multiset" "HOL-Library.Log_Nat"
begin

section \<open>RetailCore: inventory costing, sales and the credit ledger\<close>

text \<open>
  A shallow embedding of the service layer of RetailCore: the weighted-average-cost
  helper of the database module (\<^verbatim>\<open>calculateWAC\<close>), the inventory service
  (\<^verbatim>\<open>calculateNewWAC\<close>, \<^verbatim>\<open>performStockIn\<close>, \<^verbatim>\<open>reduceStock\<close>), the product
  repository's \<^verbatim>\<open>stockOut\<close>, the sales service (\<^verbatim>\<open>calculateSaleTotals\<close>,
  \<^verbatim>\<open>createCashSale\<close>, \<^verbatim>\<open>createKhataSale\<close>, \<^verbatim>\<open>recordKhataPayment\<close>) and the report
  service (\<^verbatim>\<open>calculateNetProfit\<close>, \<^verbatim>\<open>getCustomerLedgerStatement\<close>).

  Conventions of the model:
  \<^item> a TypeScript \<^verbatim>\<open>number\<close> that holds an amount of money or a stock quantity is
    the \<^typ>\<open>rat\<close> that the double stands for;
  \<^item> in the weighted average cost, where the source multiplies, adds, divides and
    rounds to cents, every operation of the source is followed by \<open>double\<close>, the
    rounding of its exact result to the nearest double (53-bit significand, ties to
    even). The exponent of \<open>double\<close> is unbounded, so overflow to infinity,
    subnormal numbers and NaN are outside the model; the facts about stored costs
    carry bounds that keep every value where \<open>double\<close> is the IEEE rounding;
  \<^item> stock quantities are whole numbers in the schema, and sums and differences of
    whole numbers below \<open>2 ^ 53\<close> are exact in doubles: the arithmetic on quantities
    is exact arithmetic. The sums of a sale's totals, of a customer's balance and of
    the profit report are read as exact arithmetic as well;
  \<^item> a \<^verbatim>\<open>number\<close> that is a row identifier is an \<^typ>\<open>int\<close>;
  \<^item> a timestamp string (\<^verbatim>\<open>created_at\<close>, \<^verbatim>\<open>updated_at\<close>) is stored as the
    \<^typ>\<open>int\<close> that \<^verbatim>\<open>new Date(s).getTime()\<close> gives for it, and the clock
    (\<^verbatim>\<open>Date.now()\<close>, \<^verbatim>\<open>new Date().toISOString()\<close>) and the generated invoice number
    are read from an explicit environment;
  \<^item> an optional field is an \<^typ>\<open>'a option\<close>;
  \<^item> \<^verbatim>\<open>throw new Error(...)\<close> is the left injection of a sum type.
\<close>

subsection \<open>Rows of the schema\<close>

record Product =
  p_id :: int
  p_name :: string
  p_name_ur :: "string option"
  p_sku :: "string option"
  p_barcode :: "string option"
  p_category_id :: "int option"
  p_supplier_id :: "int option"
  p_cost_price :: rat
  p_selling_price :: rat
  p_quantity :: rat
  p_min_stock_level :: rat
  p_wac_cost :: rat
  p_unit :: string
  p_description :: "string option"
  p_is_active :: bool
  p_created_at :: int
  p_updated_at :: int

datatype movement_type = Purchase | SaleMove | Adjustment | Return | Damage

record StockMovement =
  sm_id :: int
  sm_product_id :: int
  sm_type :: movement_type
  sm_quantity :: rat
  sm_unit_cost :: "rat option"
  sm_reference_id :: "int option"
  sm_reference_type :: "string option"
  sm_notes :: "string option"
  sm_user_id :: int
  sm_created_at :: int

text \<open>
  The clock and the invoice number generator, as seen by one call, and whether the
  handle \<^verbatim>\<open>db\<close> of the database module is set. The module as it stands never sets
  it: \<^verbatim>\<open>initDatabase\<close> returns before the assignment.
\<close>

record env =
  now :: int
  invoice :: string
  db_initialized :: bool

datatype error =
  ProductWithIDNotFound int
  | CustomerWithIDNotFound int
  | ProductNotFound
  | InsufficientStock
  | DatabaseNotInitialized

subsection \<open>JavaScript helpers\<close>

text \<open>\<^verbatim>\<open>Array.prototype.find\<close>: the first element satisfying the predicate.\<close>

fun array_find :: "('a \<Rightarrow> bool) \<Rightarrow> 'a list \<Rightarrow> 'a option" where
  "array_find P [] = None"
| "array_find P (x # xs) = (if P x then Some x else array_find P xs)"

text \<open>
  The rounding of a rational to the nearest double. \<open>exponent x\<close> is the integer
  \<open>e\<close> with \<open>2 ^ e \<le> x < 2 ^ (e + 1)\<close> for a positive \<open>x\<close>; the doubles of that
  binade are the multiples of \<open>2 ^ (e - 52)\<close>, and \<open>roundEven\<close> picks the nearest
  multiple, the even one of two equally near.
\<close>

definition roundEven :: "rat \<Rightarrow> int" where
  "roundEven y =
     (let f = \<lfloor>y\<rfloor>; r = y - of_int f in
      if r < 1 / 2 then f else if 1 / 2 < r then f + 1 else if even f then f else f + 1)"

definition exponent :: "rat \<Rightarrow> int" where
  "exponent x = (if 1 \<le> x then bitlen \<lfloor>x\<rfloor> - 1 else - bitlen (\<lceil>1 / x\<rceil> - 1))"

definition double :: "rat \<Rightarrow> rat" where
  "double x =
     (if x = 0 then 0
      else let a = \<bar>x\<bar>; ulp = 2 powi (exponent a - 52)
           in sgn x * (of_int (roundEven (a / ulp)) * ulp))"

text \<open>
  \<^verbatim>\<open>Math.round\<close>: the nearest integer, a tie going up; exact on the double it is
  given.
\<close>

definition Math_round :: "rat \<Rightarrow> rat" where
  "Math_round x = of_int \<lfloor>x + 1 / 2\<rfloor>"

text \<open>
  \<^verbatim>\<open>Math.round(x * 100) / 100\<close>, the source's rounding to two decimal places: the
  product and the quotient are doubles.
\<close>

definition round2 :: "rat \<Rightarrow> rat" where
  "round2 x = double (Math_round (double (x * 100)) / 100)"

subsection \<open>Weighted average cost and stock receipts\<close>

definition calculateWAC :: "rat \<Rightarrow> rat \<Rightarrow> rat \<Rightarrow> rat \<Rightarrow> rat" where
  "calculateWAC currentQuantity currentWAC newQuantity newCost =
     (let totalQuantity = currentQuantity + newQuantity in
      if totalQuantity = 0 then 0
      else let totalValue = double (double (currentQuantity * currentWAC)
                                    + double (newQuantity * newCost))
           in double (totalValue / totalQuantity))"

definition calculateNewWAC :: "rat \<Rightarrow> rat \<Rightarrow> rat \<Rightarrow> rat \<Rightarrow> rat" where
  "calculateNewWAC currentStock currentWAC newQuantity newCost =
     (let totalStock = currentStock + newQuantity in
      if totalStock \<le> 0 then 0
      else calculateWAC currentStock currentWAC newQuantity newCost)"

record StockInParams =
  sip_productId :: int
  sip_quantity :: rat
  sip_unitCost :: rat
  sip_supplierId :: "int option"
  sip_userId :: int
  sip_notes :: "string option"

record StockInResult =
  sir_success :: bool
  sir_product :: Product
  sir_stockMovement :: StockMovement
  sir_previousStock :: rat
  sir_previousWAC :: rat
  sir_newStock :: rat
  sir_newWAC :: rat

definition performStockIn ::
  "env \<Rightarrow> Product list \<Rightarrow> StockInParams \<Rightarrow> error + (Product list \<times> StockInResult)" where
  "performStockIn e products params =
     (case array_find (\<lambda>p. p_id p = sip_productId params) products of
        None \<Rightarrow> Inl (ProductWithIDNotFound (sip_productId params))
      | Some product \<Rightarrow>
          let previousStock = p_quantity product;
              previousWAC = p_wac_cost product;
              newStock = previousStock + sip_quantity params;
              newWAC = calculateNewWAC previousStock previousWAC
                         (sip_quantity params) (sip_unitCost params);
              updatedProduct = product
                \<lparr> p_cost_price := sip_unitCost params,
                  p_quantity := newStock,
                  p_wac_cost := round2 newWAC,
                  p_updated_at := now e \<rparr>;
              stockMovement =
                \<lparr> sm_id = now e,
                  sm_product_id = sip_productId params,
                  sm_type = Purchase,
                  sm_quantity = sip_quantity params,
                  sm_unit_cost = Some (sip_unitCost params),
                  sm_reference_id = sip_supplierId params,
                  sm_reference_type = Some ''PURCHASE'',
                  sm_notes = sip_notes params,
                  sm_user_id = sip_userId params,
                  sm_created_at = now e \<rparr>;
              updatedProducts =
                map (\<lambda>p. if p_id p = sip_productId params then updatedProduct else p) products
          in Inr (updatedProducts,
                  \<lparr> sir_success = True,
                    sir_product = updatedProduct,
                    sir_stockMovement = stockMovement,
                    sir_previousStock = previousStock,
                    sir_previousWAC = previousWAC,
                    sir_newStock = newStock,
                    sir_newWAC = newWAC \<rparr>))"

definition reduceStock :: "env \<Rightarrow> Product list \<Rightarrow> int \<Rightarrow> rat \<Rightarrow> Product list" where
  "reduceStock e products productId quantity =
     map (\<lambda>p. if p_id p \<noteq> productId then p
              else p \<lparr> p_quantity := max 0 (p_quantity p - quantity),
                       p_updated_at := now e \<rparr>) products"

subsection \<open>The product repository: stock out\<close>

text \<open>
  \<^verbatim>\<open>stockOut\<close> runs against the SQL store inside \<^verbatim>\<open>transaction\<close>, which first
  asks \<^verbatim>\<open>getDatabase\<close> for the handle and throws "Database not initialized" when it
  is not set. The callback is asynchronous and nothing in it is awaited, so it runs to
  its end or to its throw before \<^verbatim>\<open>transaction\<close> issues its commit; both of its
  throws come before its first write, so a rejected call has written nothing and
  returns the error alone. The two tables it touches are lists of rows.
  \<^verbatim>\<open>SELECT ... WHERE id = ?\<close> through \<^verbatim>\<open>queryOne\<close> is the first matching row, and
  the key of an inserted row is one more than the largest key of the table. The
  \<^verbatim>\<open>type\<close> of the input ranges over the movement types other than a purchase.
\<close>

record database =
  db_products :: "Product list"
  db_stock_movements :: "StockMovement list"

record StockOutInput =
  so_product_id :: int
  so_quantity :: rat
  so_type :: movement_type
  so_reference_id :: "int option"
  so_reference_type :: "string option"
  so_user_id :: int
  so_notes :: "string option"

definition getProductById :: "database \<Rightarrow> int \<Rightarrow> Product option" where
  "getProductById db i = array_find (\<lambda>p. p_id p = i) (db_products db)"

text \<open>\<^verbatim>\<open>x || null\<close> on an optional number and on an optional string.\<close>

definition or_null_int :: "int option \<Rightarrow> int option" where
  "or_null_int x = (case x of None \<Rightarrow> None | Some v \<Rightarrow> if v = 0 then None else Some v)"

definition or_null_str :: "string option \<Rightarrow> string option" where
  "or_null_str x = (case x of None \<Rightarrow> None | Some v \<Rightarrow> if v = [] then None else Some v)"

definition lastInsertRowId :: "StockMovement list \<Rightarrow> int" where
  "lastInsertRowId rows = foldr max (map sm_id rows) 0 + 1"

definition stockOut ::
  "env \<Rightarrow> database \<Rightarrow> StockOutInput
     \<Rightarrow> error + (database \<times> Product option \<times> StockMovement option)" where
  "stockOut e db input =
     (if \<not> db_initialized e then Inl DatabaseNotInitialized
      else case getProductById db (so_product_id input) of
        None \<Rightarrow> Inl ProductNotFound
      | Some product \<Rightarrow>
          if p_quantity product < so_quantity input then Inl InsufficientStock
          else
            let newQuantity = p_quantity product - so_quantity input;
                db1 = db \<lparr> db_products :=
                        map (\<lambda>p. if p_id p = so_product_id input
                                 then p \<lparr> p_quantity := newQuantity, p_updated_at := now e \<rparr>
                                 else p) (db_products db) \<rparr>;
                rowId = lastInsertRowId (db_stock_movements db1);
                db2 = db1 \<lparr> db_stock_movements := db_stock_movements db1 @
                        [\<lparr> sm_id = rowId,
                           sm_product_id = so_product_id input,
                           sm_type = so_type input,
                           sm_quantity = - so_quantity input,
                           sm_unit_cost = Some (p_wac_cost product),
                           sm_reference_id = or_null_int (so_reference_id input),
                           sm_reference_type = or_null_str (so_reference_type input),
                           sm_notes = or_null_str (so_notes input),
                           sm_user_id = so_user_id input,
                           sm_created_at = now e \<rparr>] \<rparr>;
                updatedProduct = getProductById db2 (so_product_id input);
                movement = array_find (\<lambda>m. sm_id m = rowId) (db_stock_movements db2)
            in Inr (db2, updatedProduct, movement))"

subsection \<open>The sales service\<close>

record Customer =
  c_id :: int
  c_name :: string
  c_phone :: "string option"
  c_email :: "string option"
  c_address :: "string option"
  c_credit_limit :: rat
  c_credit_balance :: rat
  c_notes :: "string option"
  c_is_active :: bool
  c_created_at :: int
  c_updated_at :: int

datatype payment_method = PayCash | PayCredit | PayCard | PayMixed

datatype sale_status = Pending | Completed | Refunded | Cancelled

text \<open>
  \<^verbatim>\<open>discount_percent\<close> is \<^verbatim>\<open>(discount / subtotal) * 100\<close>; with a subtotal of 0
  JavaScript yields a non-finite number, which is \<open>None\<close> here.
\<close>

record Sale =
  s_id :: int
  s_invoice_number :: "string option"
  s_customer_id :: "int option"
  s_user_id :: int
  s_subtotal :: rat
  s_discount_amount :: rat
  s_discount_percent :: "rat option"
  s_tax_amount :: rat
  s_total :: rat
  s_payment_method :: payment_method
  s_payment_received :: rat
  s_change_amount :: rat
  s_status :: sale_status
  s_notes :: "string option"
  s_created_at :: int

record SaleItem =
  si_id :: int
  si_sale_id :: int
  si_product_id :: int
  si_quantity :: rat
  si_unit_price :: rat
  si_cost_price :: rat
  si_discount_amount :: rat
  si_total :: rat
  si_created_at :: int

datatype ledger_type = Credit | Debit | Opening

record LedgerEntry =
  le_id :: int
  le_customer_id :: int
  le_type :: ledger_type
  le_amount :: rat
  le_balance :: rat
  le_reference_id :: "int option"
  le_reference_type :: "string option"
  le_description :: "string option"
  le_user_id :: int
  le_created_at :: int

record CartItem =
  ci_product :: Product
  ci_quantity :: rat
  ci_unitPrice :: rat
  ci_discount :: rat

record SaleParams =
  sp_customerId :: "int option"
  sp_userId :: int
  sp_items :: "CartItem list"
  sp_discount :: rat
  sp_paymentMode :: payment_method
  sp_amountPaid :: rat
  sp_notes :: "string option"

text \<open>\<^verbatim>\<open>KhataSaleParams\<close>: the customer is required and the payment mode is \<^verbatim>\<open>'credit'\<close>.\<close>

record KhataSaleParams =
  ksp_customerId :: int
  ksp_userId :: int
  ksp_items :: "CartItem list"
  ksp_discount :: rat
  ksp_amountPaid :: rat
  ksp_notes :: "string option"

record SaleResult =
  sr_success :: bool
  sr_sale :: Sale
  sr_saleItems :: "SaleItem list"
  sr_invoiceNumber :: string
  sr_change :: rat
  sr_ledgerEntry :: "LedgerEntry option"

record SaleTotals =
  t_subtotal :: rat
  t_discount :: rat
  t_netAmount :: rat
  t_totalCost :: rat
  t_grossProfit :: rat
  t_itemCount :: rat

definition calculateSaleTotals :: "CartItem list \<Rightarrow> rat \<Rightarrow> SaleTotals" where
  "calculateSaleTotals items discount =
     (let subtotal = foldl (\<lambda>sum item. sum + ci_quantity item * ci_unitPrice item
                                           - ci_discount item) 0 items;
          netAmount = subtotal - discount;
          totalCost = foldl (\<lambda>sum item. sum + ci_quantity item * p_wac_cost (ci_product item))
                        0 items;
          grossProfit = netAmount - totalCost
      in \<lparr> t_subtotal = subtotal, t_discount = discount, t_netAmount = netAmount,
           t_totalCost = totalCost, t_grossProfit = grossProfit,
           t_itemCount = foldl (\<lambda>sum item. sum + ci_quantity item) 0 items \<rparr>)"

definition discount_percent_of :: "rat \<Rightarrow> rat \<Rightarrow> rat option" where
  "discount_percent_of discount subtotal =
     (if discount > 0 then (if subtotal = 0 then None else Some (discount / subtotal * 100))
      else Some 0)"

text \<open>The rows of \<^verbatim>\<open>sale_items\<close> built by \<^verbatim>\<open>items.map((item, index) => ...)\<close>.\<close>

definition makeSaleItems :: "env \<Rightarrow> int \<Rightarrow> CartItem list \<Rightarrow> SaleItem list" where
  "makeSaleItems e saleId items =
     map (\<lambda>(index, item).
            \<lparr> si_id = now e + int index,
              si_sale_id = saleId,
              si_product_id = p_id (ci_product item),
              si_quantity = ci_quantity item,
              si_unit_price = ci_unitPrice item,
              si_cost_price = p_wac_cost (ci_product item),
              si_discount_amount = ci_discount item,
              si_total = ci_quantity item * ci_unitPrice item - ci_discount item,
              si_created_at = now e \<rparr>) (enumerate 0 items)"

text \<open>The \<^verbatim>\<open>products.map\<close> shared by both kinds of sale.\<close>

definition sellProducts :: "env \<Rightarrow> CartItem list \<Rightarrow> Product list \<Rightarrow> Product list" where
  "sellProducts e items products =
     map (\<lambda>p. case array_find (\<lambda>item. p_id (ci_product item) = p_id p) items of
                None \<Rightarrow> p
              | Some soldItem \<Rightarrow>
                  p \<lparr> p_quantity := max 0 (p_quantity p - ci_quantity soldItem),
                      p_updated_at := now e \<rparr>) products"

definition createCashSale :: "env \<Rightarrow> SaleParams \<Rightarrow> Product list \<Rightarrow> SaleResult \<times> Product list" where
  "createCashSale e params products =
     (let invoiceNumber = invoice e;
          totals = calculateSaleTotals (sp_items params) (sp_discount params);
          change = max 0 (sp_amountPaid params - t_netAmount totals);
          sale = \<lparr> s_id = now e,
                   s_invoice_number = Some invoiceNumber,
                   s_customer_id = sp_customerId params,
                   s_user_id = sp_userId params,
                   s_subtotal = t_subtotal totals,
                   s_discount_amount = sp_discount params,
                   s_discount_percent =
                     discount_percent_of (sp_discount params) (t_subtotal totals),
                   s_tax_amount = 0,
                   s_total = t_netAmount totals,
                   s_payment_method = PayCash,
                   s_payment_received = sp_amountPaid params,
                   s_change_amount = change,
                   s_status = Completed,
                   s_notes = sp_notes params,
                   s_created_at = now e \<rparr>;
          saleItems = makeSaleItems e (s_id sale) (sp_items params);
          updatedProducts = sellProducts e (sp_items params) products
      in (\<lparr> sr_success = True, sr_sale = sale, sr_saleItems = saleItems,
            sr_invoiceNumber = invoiceNumber, sr_change = change,
            sr_ledgerEntry = None \<rparr>,
          updatedProducts))"

record KhataSaleOutput =
  ks_sale :: SaleResult
  ks_updatedProducts :: "Product list"
  ks_updatedCustomers :: "Customer list"
  ks_newLedgerEntry :: LedgerEntry

text \<open>\<^verbatim>\<open>Math.max(...ledgerEntries.map(e => e.id), 0) + 1\<close>.\<close>

definition nextLedgerId :: "LedgerEntry list \<Rightarrow> int" where
  "nextLedgerId ledgerEntries = foldr max (map le_id ledgerEntries) 0 + 1"

text \<open>The \<^verbatim>\<open>customers.map\<close> shared by a credit sale and a payment.\<close>

definition setBalance :: "env \<Rightarrow> int \<Rightarrow> rat \<Rightarrow> Customer list \<Rightarrow> Customer list" where
  "setBalance e customerId newBalance customers =
     map (\<lambda>c. if c_id c \<noteq> customerId then c
              else c \<lparr> c_credit_balance := newBalance, c_updated_at := now e \<rparr>) customers"

definition createKhataSale ::
  "env \<Rightarrow> KhataSaleParams \<Rightarrow> Product list \<Rightarrow> Customer list \<Rightarrow> LedgerEntry list
     \<Rightarrow> error + KhataSaleOutput" where
  "createKhataSale e params products customers ledgerEntries =
     (case array_find (\<lambda>c. c_id c = ksp_customerId params) customers of
        None \<Rightarrow> Inl (CustomerWithIDNotFound (ksp_customerId params))
      | Some customer \<Rightarrow>
          let invoiceNumber = invoice e;
              totals = calculateSaleTotals (ksp_items params) (ksp_discount params);
              sale = \<lparr> s_id = now e,
                       s_invoice_number = Some invoiceNumber,
                       s_customer_id = Some (ksp_customerId params),
                       s_user_id = ksp_userId params,
                       s_subtotal = t_subtotal totals,
                       s_discount_amount = ksp_discount params,
                       s_discount_percent =
                         discount_percent_of (ksp_discount params) (t_subtotal totals),
                       s_tax_amount = 0,
                       s_total = t_netAmount totals,
                       s_payment_method = PayCredit,
                       s_payment_received = 0,
                       s_change_amount = 0,
                       s_status = Completed,
                       s_notes = ksp_notes params,
                       s_created_at = now e \<rparr>;
              saleItems = makeSaleItems e (s_id sale) (ksp_items params);
              updatedProducts = sellProducts e (ksp_items params) products;
              newBalance = c_credit_balance customer + t_netAmount totals;
              newLedgerEntry =
                \<lparr> le_id = nextLedgerId ledgerEntries,
                  le_customer_id = ksp_customerId params,
                  le_type = Credit,
                  le_amount = t_netAmount totals,
                  le_balance = newBalance,
                  le_reference_id = Some (s_id sale),
                  le_reference_type = Some ''sale'',
                  le_description = Some (''Credit Sale - Invoice #'' @ invoiceNumber),
                  le_user_id = ksp_userId params,
                  le_created_at = now e \<rparr>;
              updatedCustomers = setBalance e (ksp_customerId params) newBalance customers
          in Inr \<lparr> ks_sale =
                     \<lparr> sr_success = True, sr_sale = sale, sr_saleItems = saleItems,
                       sr_invoiceNumber = invoiceNumber, sr_change = 0,
                       sr_ledgerEntry = Some newLedgerEntry \<rparr>,
                   ks_updatedProducts = updatedProducts,
                   ks_updatedCustomers = updatedCustomers,
                   ks_newLedgerEntry = newLedgerEntry \<rparr>)"

definition recordKhataPayment ::
  "env \<Rightarrow> int \<Rightarrow> rat \<Rightarrow> int \<Rightarrow> Customer list \<Rightarrow> LedgerEntry list \<Rightarrow> string option
     \<Rightarrow> error + (Customer list \<times> LedgerEntry)" where
  "recordKhataPayment e customerId amount userId customers ledgerEntries description =
     (case array_find (\<lambda>c. c_id c = customerId) customers of
        None \<Rightarrow> Inl (CustomerWithIDNotFound customerId)
      | Some customer \<Rightarrow>
          let newBalance = c_credit_balance customer - amount;
              newLedgerEntry =
                \<lparr> le_id = nextLedgerId ledgerEntries,
                  le_customer_id = customerId,
                  le_type = Debit,
                  le_amount = amount,
                  le_balance = newBalance,
                  le_reference_id = None,
                  le_reference_type = Some ''payment'',
                  le_description =
                    Some (case or_null_str description of
                            None \<Rightarrow> ''Payment received'' | Some d \<Rightarrow> d),
                  le_user_id = userId,
                  le_created_at = now e \<rparr>;
              updatedCustomers = setBalance e customerId newBalance customers
          in Inr (updatedCustomers, newLedgerEntry))"

subsection \<open>The report service\<close>





text \<open>
  \<^verbatim>\<open>Array.prototype.sort(compare)\<close>: the language standard makes it a stable sort, and
  for a consistent comparator the result of a stable sort is unique; insertion from
  the right computes it.
\<close>

fun insert_sorted :: "('a \<Rightarrow> 'a \<Rightarrow> int) \<Rightarrow> 'a \<Rightarrow> 'a list \<Rightarrow> 'a list" where
  "insert_sorted compare x [] = [x]"
| "insert_sorted compare x (y # ys) =
     (if compare x y \<le> 0 then x # y # ys else y # insert_sorted compare x ys)"

definition array_sort :: "('a \<Rightarrow> 'a \<Rightarrow> int) \<Rightarrow> 'a list \<Rightarrow> 'a list" where
  "array_sort compare xs = foldr (insert_sorted compare) xs []"

definition getCustomerLedgerStatement :: "int \<Rightarrow> LedgerEntry list \<Rightarrow> LedgerEntry list" where
  "getCustomerLedgerStatement customerId ledgerEntries =
     array_sort (\<lambda>a b. le_created_at b - le_created_at a)
       (filter (\<lambda>e. le_customer_id e = customerId) ledgerEntries)"

subsection \<open>Committed operations on the store\<close>

text \<open>
  The services are pure: each returns the updated arrays and the new rows, and its
  caller stores them. \<open>commit\<close> is that caller: it replaces the arrays by the
  returned ones and appends the returned ledger entry or stock movement; an
  operation that throws commits nothing.
\<close>

record store =
  st_products :: "Product list"
  st_customers :: "Customer list"
  st_ledgers :: "LedgerEntry list"
  st_stock_movements :: "StockMovement list"

datatype operation =
  StockReceipt StockInParams
  | CashSale SaleParams
  | CreditSale KhataSaleParams
  | Payment int rat int "string option"
  | ReduceStock int rat
  | StockOut StockOutInput

fun commit :: "store \<Rightarrow> env \<times> operation \<Rightarrow> store" where
  "commit st (e, StockReceipt params) =
     (case performStockIn e (st_products st) params of
        Inl err \<Rightarrow> st
      | Inr (updatedProducts, result) \<Rightarrow>
          st \<lparr> st_products := updatedProducts,
               st_stock_movements := st_stock_movements st @ [sir_stockMovement result] \<rparr>)"
| "commit st (e, CashSale params) =
     st \<lparr> st_products := snd (createCashSale e params (st_products st)) \<rparr>"
| "commit st (e, CreditSale params) =
     (case createKhataSale e params (st_products st) (st_customers st) (st_ledgers st) of
        Inl err \<Rightarrow> st
      | Inr out \<Rightarrow>
          st \<lparr> st_products := ks_updatedProducts out,
               st_customers := ks_updatedCustomers out,
               st_ledgers := st_ledgers st @ [ks_newLedgerEntry out] \<rparr>)"
| "commit st (e, Payment customerId amount userId description) =
     (case recordKhataPayment e customerId amount userId (st_customers st) (st_ledgers st)
             description of
        Inl err \<Rightarrow> st
      | Inr (updatedCustomers, newLedgerEntry) \<Rightarrow>
          st \<lparr> st_customers := updatedCustomers,
               st_ledgers := st_ledgers st @ [newLedgerEntry] \<rparr>)"
| "commit st (e, ReduceStock productId quantity) =
     st \<lparr> st_products := reduceStock e (st_products st) productId quantity \<rparr>"
| "commit st (e, StockOut input) =
     (case stockOut e \<lparr> db_products = st_products st,
                        db_stock_movements = st_stock_movements st \<rparr> input of
        Inl err \<Rightarrow> st
      | Inr (db, updatedProduct, movement) \<Rightarrow>
          st \<lparr> st_products := db_products db,
               st_stock_movements := db_stock_movements db \<rparr>)"

definition run :: "store \<Rightarrow> (env \<times> operation) list \<Rightarrow> store" where
  "run st ops = foldl commit st ops"

text \<open>The balance of the entry appended last for a customer, 0 when there is none.\<close>

definition lastRunningBalance :: "int \<Rightarrow> LedgerEntry list \<Rightarrow> rat" where
  "lastRunningBalance customerId ledgerEntries =
     (case rev (filter (\<lambda>e. le_customer_id e = customerId) ledgerEntries) of
        [] \<Rightarrow> 0
      | entry # earlier \<Rightarrow> le_balance entry)"

definition balancesMatchLedger :: "store \<Rightarrow> bool" where
  "balancesMatchLedger st =
     list_all (\<lambda>c. c_credit_balance c = lastRunningBalance (c_id c) (st_ledgers st))
       (st_customers st)"

text \<open>The ledger entries that a sequence of operations appends to a store.\<close>

definition appendedEntries :: "store \<Rightarrow> (env \<times> operation) list \<Rightarrow> LedgerEntry list" where
  "appendedEntries st ops = drop (length (st_ledgers st)) (st_ledgers (run st ops))"



subsection \<open>The specification's wording, for comparison\<close>


text \<open>
  Rounding to two decimal places as the specification words it: exact, half away
  from zero.
\<close>

definition round2_spec :: "rat \<Rightarrow> rat" where
  "round2_spec x = sgn x * of_int \<lfloor>\<bar>x\<bar> * 100 + 1 / 2\<rfloor> / 100"

text \<open>
  The order of a statement as the specification words it: creation time descending,
  entries of one creation time by id descending.
\<close>

definition statementOrder_spec :: "LedgerEntry \<Rightarrow> LedgerEntry \<Rightarrow> bool" where
  "statementOrder_spec a b =
     (le_created_at b < le_created_at a
      \<or> (le_created_at b = le_created_at a \<and> le_id b < le_id a))"

subsection \<open>Example data\<close>

definition demoEnv :: env where
  "demoEnv = \<lparr> now = 1000, invoice = ''INV-20240101-0001'', db_initialized = False \<rparr>"


definition demoProduct :: "rat \<Rightarrow> rat \<Rightarrow> Product" where
  "demoProduct quantity wac =
     \<lparr> p_id = 1, p_name = ''Sugar 1kg'', p_name_ur = None, p_sku = Some ''SUG-001'',
       p_barcode = None, p_category_id = Some 1, p_supplier_id = None,
       p_cost_price = wac, p_selling_price = 50, p_quantity = quantity,
       p_min_stock_level = 20, p_wac_cost = wac, p_unit = ''pack'',
       p_description = None, p_is_active = True, p_created_at = 0, p_updated_at = 0 \<rparr>"

definition receipt :: "rat \<Rightarrow> rat \<Rightarrow> StockInParams" where
  "receipt quantity unitCost =
     \<lparr> sip_productId = 1, sip_quantity = quantity, sip_unitCost = unitCost,
       sip_supplierId = None, sip_userId = 1, sip_notes = None \<rparr>"

text \<open>Quantity and stored cost of every product a stock receipt returns.\<close>

definition stockAndCost ::
  "error + (Product list \<times> StockInResult) \<Rightarrow> error + (rat \<times> rat) list" where
  "stockAndCost = map_sum id (map (\<lambda>p. (p_quantity p, p_wac_cost p)) \<circ> fst)"

definition demoCustomer :: "int \<Rightarrow> rat \<Rightarrow> Customer" where
  "demoCustomer i balance =
     \<lparr> c_id = i, c_name = ''Muhammad Usman'', c_phone = Some ''0333-5555555'',
       c_email = None, c_address = None, c_credit_limit = 25000,
       c_credit_balance = balance, c_notes = None, c_is_active = True,
       c_created_at = 0, c_updated_at = 0 \<rparr>"

definition cartLine :: "Product \<Rightarrow> rat \<Rightarrow> rat \<Rightarrow> CartItem" where
  "cartLine product quantity unitPrice =
     \<lparr> ci_product = product, ci_quantity = quantity, ci_unitPrice = unitPrice,
       ci_discount = 0 \<rparr>"

definition cashParams :: "CartItem list \<Rightarrow> SaleParams" where
  "cashParams items =
     \<lparr> sp_customerId = None, sp_userId = 1, sp_items = items, sp_discount = 0,
       sp_paymentMode = PayCash, sp_amountPaid = 300, sp_notes = None \<rparr>"

definition khataParams :: "int \<Rightarrow> CartItem list \<Rightarrow> KhataSaleParams" where
  "khataParams customerId items =
     \<lparr> ksp_customerId = customerId, ksp_userId = 1, ksp_items = items, ksp_discount = 0,
       ksp_amountPaid = 0, ksp_notes = None \<rparr>"


definition demoStore :: "Product list \<Rightarrow> Customer list \<Rightarrow> store" where
  "demoStore products customers =
     \<lparr> st_products = products, st_customers = customers, st_ledgers = [],
       st_stock_movements = [] \<rparr>"

text \<open>A store as the database module seeds it: a balance and no ledger entry.\<close>

definition demoSeededStore :: store where
  "demoSeededStore = demoStore [demoProduct 5 30] [demoCustomer 1 15000, demoCustomer 3 0]"


definition demoLedgerOperations :: "(env \<times> operation) list" where
  "demoLedgerOperations =
     [(demoEnv, CreditSale (khataParams 3 [cartLine (demoProduct 5 30) 2 50])),
      (demoEnv, Payment 3 40 1 None)]"



definition demoEntry :: "int \<Rightarrow> int \<Rightarrow> int \<Rightarrow> LedgerEntry" where
  "demoEntry i customerId createdAt =
     \<lparr> le_id = i, le_customer_id = customerId, le_type = Credit, le_amount = 100,
       le_balance = 100 * rat_of_int i, le_reference_id = None,
       le_reference_type = Some ''sale'', le_description = None, le_user_id = 1,
       le_created_at = createdAt \<rparr>"

section \<open>Auxiliary facts\<close>

lemma array_find_None_iff: "array_find P xs = None \<longleftrightarrow> (\<forall>x\<in>set xs. \<not> P x)"
  by (induction xs) auto

lemma array_find_SomeD: "array_find P xs = Some x \<Longrightarrow> P x \<and> x \<in> set xs"
  by (induction xs) (auto split: if_splits)

lemma array_find_map_update:
  "array_find P xs = Some x \<Longrightarrow> (\<And>y. P y \<Longrightarrow> P (f y)) \<Longrightarrow>
   array_find P (map (\<lambda>y. if P y then f y else y) xs) = Some (f x)"
  by (induction xs) (auto split: if_splits)

subsection \<open>Rounding to the nearest double\<close>

lemma roundEven_close: "\<bar>of_int (roundEven y) - y\<bar> \<le> 1 / 2"
proof -
  have "rat_of_int \<lfloor>y\<rfloor> \<le> y" and "y < rat_of_int \<lfloor>y\<rfloor> + 1"
    by linarith+
  then show ?thesis
    unfolding roundEven_def Let_def by (auto simp: abs_le_iff)
qed

lemma roundEven_of_int [simp]: "roundEven (of_int k) = k"
  by (simp add: roundEven_def)

lemma roundEven_mono: "y \<le> z \<Longrightarrow> roundEven y \<le> roundEven z"
proof -
  assume le: "y \<le> z"
  have lo: "\<lfloor>t\<rfloor> \<le> roundEven t" and hi: "roundEven t \<le> \<lfloor>t\<rfloor> + 1" for t
    by (auto simp: roundEven_def Let_def)
  have fl: "\<lfloor>y\<rfloor> \<le> \<lfloor>z\<rfloor>" using le by (rule floor_mono)
  show ?thesis
  proof (cases "\<lfloor>y\<rfloor> = \<lfloor>z\<rfloor>")
    case True
    then show ?thesis using le by (auto simp: roundEven_def Let_def)
  next
    case False
    then have "\<lfloor>y\<rfloor> + 1 \<le> \<lfloor>z\<rfloor>" using fl by simp
    then show ?thesis using hi [of y] lo [of z] by linarith
  qed
qed

lemma exponent_bounds:
  assumes "0 < x"
  shows "2 powi exponent x \<le> x" and "x < 2 powi (exponent x + 1)"
proof -
  have "2 powi exponent x \<le> x \<and> x < 2 powi (exponent x + 1)"
  proof (cases "1 \<le> x")
    case True
    let ?n = "\<lfloor>x\<rfloor>"
    have n: "0 < ?n" using True by simp
    have b1: "1 \<le> bitlen ?n" using n bitlen_eq_zero_iff [of ?n] bitlen_nonneg [of ?n]
      by (smt (verit))
    from bitlen_bounds [OF n] have lo: "2 ^ nat (bitlen ?n - 1) \<le> ?n"
      and hi: "?n < 2 ^ nat (bitlen ?n)" by auto
    have e: "exponent x = bitlen ?n - 1" using True by (simp add: exponent_def)
    have "(2::rat) powi (bitlen ?n - 1) = of_int (2 ^ nat (bitlen ?n - 1))"
      using b1 by (simp add: power_int_def)
    also have "\<dots> \<le> of_int ?n" using lo by (simp only: of_int_le_iff)
    also have "\<dots> \<le> x" by simp
    finally have A: "2 powi exponent x \<le> x" by (simp add: e)
    have "?n + 1 \<le> 2 ^ nat (bitlen ?n)" using hi by simp
    then have "rat_of_int (?n + 1) \<le> of_int (2 ^ nat (bitlen ?n))"
      by (simp only: of_int_le_iff)
    moreover have "x < rat_of_int (?n + 1)" by linarith
    moreover have "(2::rat) powi (bitlen ?n) = of_int (2 ^ nat (bitlen ?n))"
      using b1 by (simp add: power_int_def)
    ultimately have B: "x < 2 powi (exponent x + 1)" by (simp add: e)
    show ?thesis using A B by simp
  next
    case False
    then have x1: "x < 1" by simp
    let ?n = "\<lceil>1 / x\<rceil> - 1"
    have inv: "1 < 1 / x" using assms x1 by simp
    have n: "0 < ?n" using inv by linarith
    have b1: "1 \<le> bitlen ?n" using n bitlen_eq_zero_iff [of ?n] bitlen_nonneg [of ?n]
      by (smt (verit))
    from bitlen_bounds [OF n] have lo: "2 ^ nat (bitlen ?n - 1) \<le> ?n"
      and hi: "?n < 2 ^ nat (bitlen ?n)" by auto
    have e: "exponent x = - bitlen ?n" using False by (simp add: exponent_def)
    have "\<lceil>1 / x\<rceil> \<le> 2 ^ nat (bitlen ?n)" using hi by simp
    then have "rat_of_int \<lceil>1 / x\<rceil> \<le> rat_of_int (2 ^ nat (bitlen ?n))"
      by (simp only: of_int_le_iff)
    moreover have "1 / x \<le> rat_of_int \<lceil>1 / x\<rceil>" by (rule le_of_int_ceiling)
    ultimately have "1 / x \<le> rat_of_int (2 ^ nat (bitlen ?n))" by (rule order_trans [rotated])
    then have "1 / x \<le> 2 ^ nat (bitlen ?n)" by simp
    then have "1 \<le> 2 ^ nat (bitlen ?n) * x"
      using assms by (simp add: pos_divide_le_eq)
    then have "1 / 2 ^ nat (bitlen ?n) \<le> x"
      by (simp add: pos_divide_le_eq mult.commute)
    moreover have "(2::rat) powi (- bitlen ?n) = 1 / 2 ^ nat (bitlen ?n)"
      using b1 by (simp add: power_int_def inverse_eq_divide power_one_over)
    ultimately have A: "2 powi exponent x \<le> x" by (simp add: e)
    have "rat_of_int ?n < 1 / x" by linarith
    moreover have "rat_of_int (2 ^ nat (bitlen ?n - 1)) \<le> of_int ?n"
      using lo by (simp only: of_int_le_iff)
    ultimately have "2 ^ nat (bitlen ?n - 1) < 1 / x" by simp
    then have "2 ^ nat (bitlen ?n - 1) * x < 1"
      using assms by (simp add: pos_less_divide_eq)
    then have "x < 1 / 2 ^ nat (bitlen ?n - 1)"
      by (simp add: pos_less_divide_eq mult.commute)
    moreover have "(2::rat) powi (- bitlen ?n + 1) = 1 / 2 ^ nat (bitlen ?n - 1)"
    proof (cases "bitlen ?n = 1")
      case True
      then show ?thesis by simp
    next
      case F: False
      then have "- bitlen ?n + 1 < 0" using b1 by simp
      moreover have "nat (- (- bitlen ?n + 1)) = nat (bitlen ?n - 1)" by simp
      ultimately show ?thesis
        by (simp add: power_int_def inverse_eq_divide power_one_over)
    qed
    ultimately have B: "x < 2 powi (exponent x + 1)" by (simp add: e)
    show ?thesis using A B by simp
  qed
  then show "2 powi exponent x \<le> x" and "x < 2 powi (exponent x + 1)" by simp_all
qed

lemma pow2_less_imp_less: "(2::rat) powi m < 2 powi n \<Longrightarrow> m < n"
proof (rule ccontr)
  assume less: "(2::rat) powi m < 2 powi n" and "\<not> m < n"
  then have "n \<le> m" by simp
  then have "(2::rat) powi n \<le> 2 powi m" by (intro power_int_increasing) simp_all
  with less show False by simp
qed

lemma exponent_eqI:
  assumes "0 < x" and lo: "2 powi e \<le> x" and hi: "x < 2 powi (e + 1)"
  shows "exponent x = e"
proof -
  from exponent_bounds [OF assms(1)]
  have lo': "2 powi exponent x \<le> x" and hi': "x < 2 powi (exponent x + 1)" by simp_all
  have "(2::rat) powi exponent x < 2 powi (e + 1)" using lo' hi by (rule le_less_trans)
  then have "exponent x < e + 1" by (rule pow2_less_imp_less)
  moreover have "(2::rat) powi e < 2 powi (exponent x + 1)" using lo hi' by (rule le_less_trans)
  then have "e < exponent x + 1" by (rule pow2_less_imp_less)
  ultimately show ?thesis by simp
qed

lemma exponent_mono:
  assumes "0 < x" and "x \<le> y"
  shows "exponent x \<le> exponent y"
proof -
  have y: "0 < y" using assms by simp
  have "2 powi exponent x \<le> x" using exponent_bounds(1) [OF assms(1)] .
  also have "x \<le> y" by fact
  also have "y < 2 powi (exponent y + 1)" using exponent_bounds(2) [OF y] .
  finally have "exponent x < exponent y + 1" by (rule pow2_less_imp_less)
  then show ?thesis by simp
qed

lemma double_pos:
  "0 < x \<Longrightarrow>
   double x = of_int (roundEven (x / 2 powi (exponent x - 52))) * 2 powi (exponent x - 52)"
  by (simp add: double_def Let_def)

lemma double_zero [simp]: "double 0 = 0"
  by (simp add: double_def)

lemma significand_bounds:
  assumes "0 < x"
  shows "2 ^ 52 \<le> x / 2 powi (exponent x - 52)" and "x / 2 powi (exponent x - 52) < 2 ^ 53"
proof -
  let ?e = "exponent x"
  have ulp: "(0::rat) < 2 powi (?e - 52)" by simp
  have a: "(2::rat) powi ?e = 2 ^ 52 * 2 powi (?e - 52)"
    using power_int_add [of "2::rat" 52 "?e - 52"] by simp
  have "(2::rat) powi (?e + 1) = 2 powi (53 + (?e - 52))"
    by (rule arg_cong [where f = "\<lambda>n. 2 powi n"]) simp
  also have "\<dots> = 2 ^ 53 * 2 powi (?e - 52)"
    by (subst power_int_add) simp_all
  finally have b: "(2::rat) powi (?e + 1) = 2 ^ 53 * 2 powi (?e - 52)" .
  show "2 ^ 52 \<le> x / 2 powi (?e - 52)"
    using exponent_bounds(1) [OF assms] ulp by (simp add: pos_le_divide_eq a)
  show "x / 2 powi (?e - 52) < 2 ^ 53"
    using exponent_bounds(2) [OF assms] ulp by (simp add: pos_divide_less_eq b)
qed

lemma roundEven_significand:
  assumes "0 < x"
  shows "2 ^ 52 \<le> roundEven (x / 2 powi (exponent x - 52))"
    and "roundEven (x / 2 powi (exponent x - 52)) \<le> 2 ^ 53"
proof -
  have "roundEven (rat_of_int (2 ^ 52)) \<le> roundEven (x / 2 powi (exponent x - 52))"
    using significand_bounds(1) [OF assms] by (intro roundEven_mono) simp
  then show "2 ^ 52 \<le> roundEven (x / 2 powi (exponent x - 52))"
    by (simp only: roundEven_of_int)
  have "roundEven (x / 2 powi (exponent x - 52)) \<le> roundEven (rat_of_int (2 ^ 53))"
    using significand_bounds(2) [OF assms] by (intro roundEven_mono) simp
  then show "roundEven (x / 2 powi (exponent x - 52)) \<le> 2 ^ 53"
    by (simp only: roundEven_of_int)
qed

lemma double_range:
  assumes "0 < x"
  shows "2 powi exponent x \<le> double x" and "double x \<le> 2 powi (exponent x + 1)"
proof -
  let ?e = "exponent x"
  let ?m = "roundEven (x / 2 powi (?e - 52))"
  have ulp: "(0::rat) < 2 powi (?e - 52)" by simp
  have a: "(2::rat) powi ?e = 2 ^ 52 * 2 powi (?e - 52)"
    using power_int_add [of "2::rat" 52 "?e - 52"] by simp
  have "(2::rat) powi (?e + 1) = 2 powi (53 + (?e - 52))"
    by (rule arg_cong [where f = "\<lambda>n. 2 powi n"]) simp
  also have "\<dots> = 2 ^ 53 * 2 powi (?e - 52)"
    by (subst power_int_add) simp_all
  finally have b: "(2::rat) powi (?e + 1) = 2 ^ 53 * 2 powi (?e - 52)" .
  have "rat_of_int (2 ^ 52) \<le> of_int ?m"
    using roundEven_significand(1) [OF assms] by (simp only: of_int_le_iff)
  then have "(2::rat) ^ 52 * 2 powi (?e - 52) \<le> of_int ?m * 2 powi (?e - 52)"
    using ulp by (intro mult_right_mono) simp_all
  then show "2 powi ?e \<le> double x"
    by (simp add: double_pos [OF assms] a)
  have "of_int ?m \<le> rat_of_int (2 ^ 53)"
    using roundEven_significand(2) [OF assms] by (simp only: of_int_le_iff)
  then have "of_int ?m * 2 powi (?e - 52) \<le> (2::rat) ^ 53 * 2 powi (?e - 52)"
    using ulp by (intro mult_right_mono) simp_all
  then show "double x \<le> 2 powi (?e + 1)"
    by (simp add: double_pos [OF assms] b)
qed

lemma double_nonneg: "0 \<le> x \<Longrightarrow> 0 \<le> double x"
proof (cases "x = 0")
  case True
  then show ?thesis by simp
next
  case False
  assume "0 \<le> x"
  with False have pos: "0 < x" by simp
  have "(0::rat) \<le> 2 powi exponent x" by simp
  also have "\<dots> \<le> double x" using double_range(1) [OF pos] .
  finally show ?thesis .
qed

lemma double_mono:
  assumes "0 \<le> x" and "x \<le> y"
  shows "double x \<le> double y"
proof (cases "x = 0")
  case True
  then show ?thesis using assms double_nonneg [of y] by simp
next
  case False
  then have x: "0 < x" using assms by simp
  then have y: "0 < y" using assms by simp
  have e: "exponent x \<le> exponent y" using exponent_mono [OF x assms(2)] .
  show ?thesis
  proof (cases "exponent x = exponent y")
    case True
    have "x / 2 powi (exponent y - 52) \<le> y / 2 powi (exponent y - 52)"
      using assms(2) by (intro divide_right_mono) simp_all
    then have "roundEven (x / 2 powi (exponent y - 52)) \<le> roundEven (y / 2 powi (exponent y - 52))"
      by (rule roundEven_mono)
    then have "rat_of_int (roundEven (x / 2 powi (exponent y - 52)))
        \<le> of_int (roundEven (y / 2 powi (exponent y - 52)))"
      by (simp only: of_int_le_iff)
    then have "rat_of_int (roundEven (x / 2 powi (exponent y - 52))) * 2 powi (exponent y - 52)
        \<le> rat_of_int (roundEven (y / 2 powi (exponent y - 52))) * 2 powi (exponent y - 52)"
      by (intro mult_right_mono) simp_all
    then show ?thesis
      by (simp add: double_pos [OF x] double_pos [OF y] True)
  next
    case False
    then have "exponent x + 1 \<le> exponent y" using e by simp
    then have "(2::rat) powi (exponent x + 1) \<le> 2 powi exponent y"
      by (intro power_int_increasing) simp_all
    then show ?thesis
      using double_range(2) [OF x] double_range(1) [OF y] by linarith
  qed
qed

lemma double_error:
  assumes "0 \<le> x"
  shows "\<bar>double x - x\<bar> \<le> x / 2 ^ 53"
proof (cases "x = 0")
  case True
  then show ?thesis by simp
next
  case False
  then have pos: "0 < x" using assms by simp
  let ?ulp = "(2::rat) powi (exponent x - 52)"
  let ?m = "roundEven (x / ?ulp)"
  have ulp: "0 < ?ulp" by simp
  have "double x - x = (of_int ?m - x / ?ulp) * ?ulp"
    using ulp by (simp add: double_pos [OF pos] algebra_simps)
  then have "\<bar>double x - x\<bar> = \<bar>of_int ?m - x / ?ulp\<bar> * ?ulp"
    using ulp by (simp add: abs_mult)
  also have "\<dots> \<le> 1 / 2 * ?ulp"
    using roundEven_close [of "x / ?ulp"] ulp by (intro mult_right_mono) simp_all
  also have "\<dots> = 2 powi exponent x / 2 ^ 53"
    using power_int_add [of "2::rat" 52 "exponent x - 52"] by simp
  also have "\<dots> \<le> x / 2 ^ 53"
    using exponent_bounds(1) [OF pos] by (intro divide_right_mono) simp_all
  finally show ?thesis .
qed

lemma double_upper: "0 \<le> x \<Longrightarrow> x \<le> b \<Longrightarrow> double x \<le> b * (1 + 1 / 2 ^ 53)"
proof -
  assume x: "0 \<le> x" and b: "x \<le> b"
  have "double x \<le> x + x / 2 ^ 53" using double_error [OF x] by linarith
  also have "\<dots> = x * (1 + 1 / 2 ^ 53)" by (simp add: algebra_simps)
  also have "\<dots> \<le> b * (1 + 1 / 2 ^ 53)" using b by (intro mult_right_mono) simp_all
  finally show ?thesis .
qed

lemma double_lower: "0 \<le> b \<Longrightarrow> b \<le> x \<Longrightarrow> b * (1 - 1 / 2 ^ 53) \<le> double x"
proof -
  assume b0: "0 \<le> b" and b: "b \<le> x"
  then have x: "0 \<le> x" by simp
  have "b * (1 - 1 / 2 ^ 53) \<le> x * (1 - 1 / 2 ^ 53)" using b by (intro mult_right_mono) simp_all
  also have "\<dots> = x - x / 2 ^ 53" by (simp add: algebra_simps)
  also have "\<dots> \<le> double x" using double_error [OF x] by linarith
  finally show ?thesis .
qed

lemma double_eqI:
  assumes "0 < x" and "2 powi e \<le> x" and "x < 2 powi (e + 1)"
    and "roundEven (x / 2 powi (e - 52)) = m"
  shows "double x = of_int m * 2 powi (e - 52)"
  using assms by (simp add: double_pos exponent_eqI [OF assms(1-3)])

lemma roundEven_eqI: "\<bar>y - of_int m\<bar> < 1 / 2 \<Longrightarrow> roundEven y = m"
proof -
  assume "\<bar>y - of_int m\<bar> < 1 / 2"
  then have "\<bar>rat_of_int (roundEven y) - of_int m\<bar> < 1"
    using roundEven_close [of y] by linarith
  then have "\<bar>rat_of_int (roundEven y - m)\<bar> < 1" by simp
  then have "\<bar>roundEven y - m\<bar> < 1" by (simp only: of_int_abs [symmetric] of_int_less_1_iff)
  then show ?thesis by simp
qed

lemma roundEven_tie: "even m \<Longrightarrow> roundEven (of_int m + 1 / 2) = m"
proof -
  assume "even m"
  moreover have "\<lfloor>rat_of_int m + 1 / 2\<rfloor> = m" by (rule floor_unique) simp_all
  ultimately show ?thesis by (simp add: roundEven_def Let_def)
qed

lemma double_of_int:
  assumes "0 \<le> k" and "k < 2 ^ 53"
  shows "double (of_int k) = of_int k"
proof (cases "k = 0")
  case True
  then show ?thesis by simp
next
  case False
  then have pos: "0 < rat_of_int k" using assms by simp
  let ?e = "exponent (of_int k)"
  have "(2::rat) powi ?e \<le> of_int k" using exponent_bounds(1) [OF pos] .
  also have "rat_of_int k < of_int (2 ^ 53)" using assms(2) by (simp only: of_int_less_iff)
  finally have "(2::rat) powi ?e < 2 powi 53" by simp
  then have e: "?e < 53" by (rule pow2_less_imp_less)
  then have ulp: "(2::rat) powi (?e - 52) = 1 / 2 ^ nat (52 - ?e)"
    by (simp add: power_int_def inverse_eq_divide power_one_over)
  have "rat_of_int k / 2 powi (?e - 52) = of_int (k * 2 ^ nat (52 - ?e))"
    by (simp add: ulp)
  then have "roundEven (rat_of_int k / 2 powi (?e - 52)) = k * 2 ^ nat (52 - ?e)"
    by (simp only: roundEven_of_int)
  then show ?thesis
    by (simp add: double_pos [OF pos]) (simp add: ulp)
qed

lemma double_13_cents: "double (13 / 100) = 1170935903116329 / 9007199254740992"
proof -
  have r: "roundEven ((13 / 100) / 2 powi (- 3 - 52)) = 4683743612465316"
    by (rule roundEven_eqI) simp
  show ?thesis
    using double_eqI [of "13 / 100" "- 3", OF _ _ _ r] by simp
qed

lemma double_101_cents: "double (101 / 100) = 4548635623644201 / 4503599627370496"
proof -
  have r: "roundEven ((101 / 100) / 2 powi (0 - 52)) = 4548635623644201"
    by (rule roundEven_eqI) simp
  show ?thesis
    using double_eqI [of "101 / 100" 0, OF _ _ _ r] by simp
qed

lemma roundEven_tieI: "y = of_int m + 1 / 2 \<Longrightarrow> even m \<Longrightarrow> roundEven y = m"
  using roundEven_tie by simp

lemma Math_round_eqI:
  "rat_of_int k \<le> x + 1 / 2 \<Longrightarrow> x + 1 / 2 < rat_of_int k + 1 \<Longrightarrow> Math_round x = of_int k"
  by (simp add: Math_round_def floor_unique)

lemma double_1: "double 1 = 1"
  using double_of_int [of 1] by simp

lemma double_101_cents_idem: "double (4548635623644201 / 4503599627370496) = 4548635623644201 / 4503599627370496"
proof -
  have r: "roundEven ((4548635623644201 / 4503599627370496) / 2 powi (0 - 52)) = 4548635623644201"
    by (rule roundEven_eqI) simp
  show ?thesis
    using double_eqI [of "4548635623644201 / 4503599627370496" 0, OF _ _ _ r] by simp
qed

lemma double_evalI:
  assumes "0 < x" and "2 powi e \<le> x" and "x < 2 powi (e + 1)"
    and "\<bar>x / 2 powi (e - 52) - of_int m\<bar> < 1 / 2" and "r = of_int m * 2 powi (e - 52)"
  shows "double x = r"
  using double_eqI [OF assms(1-3) roundEven_eqI [OF assms(4)]] assms(5) by simp

lemma double_tieI:
  assumes "0 < x" and "2 powi e \<le> x" and "x < 2 powi (e + 1)"
    and "x / 2 powi (e - 52) = of_int m + 1 / 2" and "even m"
    and "r = of_int m * 2 powi (e - 52)"
  shows "double x = r"
  using double_eqI [OF assms(1-3) roundEven_tieI [OF assms(4,5)]] assms(6) by simp

lemma tie_sum: "double (9052235251014697 / 4503599627370496) = 1131529406376837 / 562949953421312"
  by (rule double_tieI [where e = 1 and m = 4526117625507348]) simp_all

lemma tie_quot: "double (1131529406376837 / 1125899906842624) = 1131529406376837 / 1125899906842624"
  by (rule double_evalI [where e = 0 and m = 4526117625507348]) simp_all

lemma tie_wac: "calculateNewWAC 1 1 1 (double (101 / 100)) = 1131529406376837 / 1125899906842624"
  by (simp add: calculateNewWAC_def calculateWAC_def double_101_cents double_1 double_101_cents_idem tie_sum tie_quot)

lemma tie_scaled: "double (28288235159420925 / 281474976710656) = 7072058789855231 / 70368744177664"
  by (rule double_evalI [where e = 6 and m = 7072058789855231]) simp_all

lemma tie_stored: "round2 (calculateNewWAC 1 1 1 (double (101 / 100))) = 1"
proof -
  have "Math_round (7072058789855231 / 70368744177664) = of_int 100"
    by (rule Math_round_eqI) simp_all
  then show ?thesis
    by (simp add: round2_def tie_wac tie_scaled double_1)
qed

lemma wac_value_upper:
  assumes x1: "0 \<le> x1" and x2: "0 \<le> x2" and T: "0 < T"
  shows "double (double (double x1 + double x2) / T)
           \<le> (x1 + x2) / T * ((1 + 1 / 2 ^ 53) * (1 + 1 / 2 ^ 53) * (1 + 1 / 2 ^ 53))"
proof -
  define a :: rat where "a = 1 + 1 / 2 ^ 53"
  have a: "0 \<le> a" by (simp add: a_def)
  have d1: "double x1 \<le> x1 * a" unfolding a_def by (rule double_upper [OF x1 order_refl])
  have d2: "double x2 \<le> x2 * a" unfolding a_def by (rule double_upper [OF x2 order_refl])
  have s0: "0 \<le> double x1 + double x2"
    using double_nonneg [OF x1] double_nonneg [OF x2] by simp
  have s1: "double x1 + double x2 \<le> (x1 + x2) * a"
    using d1 d2 by (simp add: distrib_right)
  have s2: "double (double x1 + double x2) \<le> (x1 + x2) * a * a"
    unfolding a_def by (rule double_upper [OF s0 s1 [unfolded a_def]])
  have q0: "0 \<le> double (double x1 + double x2) / T"
    using double_nonneg [OF s0] T by simp
  have q1: "double (double x1 + double x2) / T \<le> (x1 + x2) * a * a / T"
    using s2 T by (simp add: divide_right_mono)
  have "double (double (double x1 + double x2) / T) \<le> (x1 + x2) * a * a / T * a"
    unfolding a_def by (rule double_upper [OF q0 q1 [unfolded a_def]])
  also have "\<dots> = (x1 + x2) / T * (a * a * a)" by simp
  finally show ?thesis unfolding a_def .
qed

lemma wac_value_lower:
  assumes x1: "0 \<le> x1" and x2: "0 \<le> x2" and T: "0 < T"
  shows "(x1 + x2) / T * ((1 - 1 / 2 ^ 53) * (1 - 1 / 2 ^ 53) * (1 - 1 / 2 ^ 53))
           \<le> double (double (double x1 + double x2) / T)"
proof -
  define a :: rat where "a = 1 - 1 / 2 ^ 53"
  have a: "0 \<le> a" by (simp add: a_def)
  have d1: "x1 * a \<le> double x1" unfolding a_def by (rule double_lower [OF x1 order_refl])
  have d2: "x2 * a \<le> double x2" unfolding a_def by (rule double_lower [OF x2 order_refl])
  have s0: "0 \<le> (x1 + x2) * a" using x1 x2 a by simp
  have s1: "(x1 + x2) * a \<le> double x1 + double x2"
    using d1 d2 by (simp add: distrib_right)
  have s2: "(x1 + x2) * a * a \<le> double (double x1 + double x2)"
    unfolding a_def by (rule double_lower [OF s0 [unfolded a_def] s1 [unfolded a_def]])
  have q0: "0 \<le> (x1 + x2) * a * a / T" using x1 x2 a T by simp
  have q1: "(x1 + x2) * a * a / T \<le> double (double x1 + double x2) / T"
    using s2 T by (simp add: divide_right_mono)
  have "(x1 + x2) * a * a / T * a \<le> double (double (double x1 + double x2) / T)"
    unfolding a_def by (rule double_lower [OF q0 [unfolded a_def] q1 [unfolded a_def]])
  moreover have "(x1 + x2) * a * a / T * a = (x1 + x2) / T * (a * a * a)" by simp
  ultimately show ?thesis unfolding a_def by simp
qed

lemma round2_eq: "round2 x = double (of_int \<lfloor>double (x * 100) + 1 / 2\<rfloor> / 100)"
  by (simp add: round2_def Math_round_def)

lemma cents_fixed_point:
  assumes fixed: "round2 M = M" and M0: "0 \<le> M" and Mb: "M \<le> 10 ^ 12"
  obtains K :: int where "0 \<le> K" and "K \<le> 2 ^ 47" and "M = double (of_int K / 100)"
proof -
  let ?K = "\<lfloor>double (M * 100) + 1 / 2\<rfloor>"
  have y0: "0 \<le> double (M * 100)" using M0 by (intro double_nonneg) simp
  then have K0: "0 \<le> ?K" by simp
  have "double (M * 100) \<le> 10 ^ 14 * (1 + 1 / 2 ^ 53)"
    using M0 Mb by (intro double_upper) simp_all
  then have "double (M * 100) + 1 / 2 < 2 ^ 47" by simp
  then have "?K < 2 ^ 47" by (simp add: floor_less_iff)
  then have Kb: "?K \<le> 2 ^ 47" by simp
  have "M = double (of_int ?K / 100)" using fixed by (simp add: round2_eq)
  with K0 Kb show ?thesis by (rule that)
qed

lemma cents_upper:
  assumes w0: "0 \<le> w"
    and wM: "w \<le> M * ((1 + 1 / 2 ^ 53) * (1 + 1 / 2 ^ 53) * (1 + 1 / 2 ^ 53))"
    and fixed: "round2 M = M" and M0: "0 \<le> M" and Mb: "M \<le> 10 ^ 12"
  shows "round2 w \<le> M"
proof -
  define a :: rat where "a = 1 + 1 / 2 ^ 53"
  have a: "0 \<le> a" by (simp add: a_def)
  from cents_fixed_point [OF fixed M0 Mb] obtain K :: int
    where K0: "0 \<le> K" and Kb: "K \<le> 2 ^ 47" and M: "M = double (of_int K / 100)"
    by blast
  have Kr: "0 \<le> rat_of_int K" "rat_of_int K \<le> 2 ^ 47"
    using K0 Kb by (simp_all add: of_int_le_iff [of K "2 ^ 47", where ?'a = rat, simplified])
  have "M \<le> of_int K / 100 * a"
    unfolding M a_def using Kr(1) by (intro double_upper) simp_all
  then have "M * (a * a * a) \<le> of_int K / 100 * a * (a * a * a)"
    using a by (intro mult_right_mono) simp_all
  with wM have "w \<le> of_int K / 100 * a * (a * a * a)" unfolding a_def by simp
  then have "w * 100 \<le> of_int K * (a * a * a * a)" by simp
  then have "double (w * 100) \<le> of_int K * (a * a * a * a) * a"
    unfolding a_def using w0 by (intro double_upper) simp_all
  then have y: "double (w * 100) \<le> of_int K * (a * a * a * a * a)" by simp
  have "a * a * a * a * a \<le> 1 + 6 / 2 ^ 53" by (simp add: a_def)
  then have "rat_of_int K * (a * a * a * a * a) \<le> of_int K * (1 + 6 / 2 ^ 53)"
    using Kr(1) by (intro mult_left_mono) simp_all
  then have y': "rat_of_int K * (a * a * a * a * a) \<le> of_int K + of_int K * (6 / 2 ^ 53)"
    by (simp add: algebra_simps)
  have "rat_of_int K * (6 / 2 ^ 53) \<le> 2 ^ 47 * (6 / 2 ^ 53)"
    using Kr(2) by (intro mult_right_mono) simp_all
  then have "rat_of_int K * (6 / 2 ^ 53) < 1 / 2" by simp
  with y y' have "double (w * 100) + 1 / 2 < of_int K + 1" by linarith
  then have "\<lfloor>double (w * 100) + 1 / 2\<rfloor> \<le> K"
    using floor_less_iff [of "double (w * 100) + 1 / 2" "K + 1"] by simp
  moreover have "0 \<le> \<lfloor>double (w * 100) + 1 / 2\<rfloor>"
    using double_nonneg [of "w * 100"] w0 by simp
  ultimately have "double (of_int \<lfloor>double (w * 100) + 1 / 2\<rfloor> / 100) \<le> double (of_int K / 100)"
    by (intro double_mono) simp_all
  then show ?thesis by (simp add: round2_eq M)
qed

lemma cents_lower:
  assumes mw: "m * ((1 - 1 / 2 ^ 53) * (1 - 1 / 2 ^ 53) * (1 - 1 / 2 ^ 53)) \<le> w"
    and fixed: "round2 m = m" and m0: "0 \<le> m" and mb: "m \<le> 10 ^ 12"
  shows "m \<le> round2 w"
proof -
  define a :: rat where "a = 1 - 1 / 2 ^ 53"
  have a: "0 \<le> a" by (simp add: a_def)
  from cents_fixed_point [OF fixed m0 mb] obtain K :: int
    where K0: "0 \<le> K" and Kb: "K \<le> 2 ^ 47" and m: "m = double (of_int K / 100)"
    by blast
  have Kr: "0 \<le> rat_of_int K" "rat_of_int K \<le> 2 ^ 47"
    using K0 Kb by (simp_all add: of_int_le_iff [of K "2 ^ 47", where ?'a = rat, simplified])
  have "of_int K / 100 * a \<le> m"
    unfolding m a_def using Kr(1) by (intro double_lower) simp_all
  then have "of_int K / 100 * a * (a * a * a) \<le> m * (a * a * a)"
    using a by (intro mult_right_mono) simp_all
  with mw have "of_int K / 100 * a * (a * a * a) \<le> w" unfolding a_def by simp
  then have lo: "of_int K * (a * a * a * a) \<le> w * 100" by simp
  have lo0: "0 \<le> of_int K * (a * a * a * a)" using Kr(1) a by simp
  have "of_int K * (a * a * a * a) * a \<le> double (w * 100)"
    unfolding a_def by (rule double_lower [OF lo0 [unfolded a_def] lo [unfolded a_def]])
  then have y: "rat_of_int K * (a * a * a * a * a) \<le> double (w * 100)" by simp
  have "1 - 5 / 2 ^ 53 \<le> a * a * a * a * a" by (simp add: a_def)
  then have "rat_of_int K * (1 - 5 / 2 ^ 53) \<le> of_int K * (a * a * a * a * a)"
    using Kr(1) by (intro mult_left_mono) simp_all
  then have y': "rat_of_int K - of_int K * (5 / 2 ^ 53) \<le> of_int K * (a * a * a * a * a)"
    by (simp add: algebra_simps)
  have "rat_of_int K * (5 / 2 ^ 53) \<le> 2 ^ 47 * (5 / 2 ^ 53)"
    using Kr(2) by (intro mult_right_mono) simp_all
  then have "rat_of_int K * (5 / 2 ^ 53) < 1 / 2" by simp
  with y y' have "of_int K \<le> double (w * 100) + 1 / 2" by linarith
  then have "K \<le> \<lfloor>double (w * 100) + 1 / 2\<rfloor>" by (simp add: le_floor_iff)
  then have "double (of_int K / 100) \<le> double (of_int \<lfloor>double (w * 100) + 1 / 2\<rfloor> / 100)"
    using Kr(1) by (intro double_mono) simp_all
  then show ?thesis by (simp add: round2_eq m)
qed

lemma cents_error:
  assumes v0: "0 \<le> v"
    and lo: "v * ((1 - 1 / 2 ^ 53) * (1 - 1 / 2 ^ 53) * (1 - 1 / 2 ^ 53)) \<le> w"
    and hi: "w \<le> v * ((1 + 1 / 2 ^ 53) * (1 + 1 / 2 ^ 53) * (1 + 1 / 2 ^ 53))"
  shows "\<bar>of_int \<lfloor>double (w * 100) + 1 / 2\<rfloor> / 100 - v\<bar> \<le> 1 / 200 + v / 2 ^ 50"
proof -
  define a :: rat where "a = 1 + 1 / 2 ^ 53"
  define b :: rat where "b = 1 - 1 / 2 ^ 53"
  define y where "y = double (w * 100)"
  have b0: "0 \<le> v * (b * b * b)" using v0 by (simp add: b_def)
  then have w0: "0 \<le> w" using lo unfolding b_def by simp
  have "w * 100 \<le> v * 100 * (a * a * a)" using hi unfolding a_def by simp
  then have "double (w * 100) \<le> v * 100 * (a * a * a) * a"
    unfolding a_def using w0 by (intro double_upper) simp_all
  then have y1: "y \<le> v * (100 * (a * a * a * a))" by (simp add: y_def)
  have "100 * (a * a * a * a) \<le> 100 + 500 / 2 ^ 53" by (simp add: a_def)
  then have "v * (100 * (a * a * a * a)) \<le> v * (100 + 500 / 2 ^ 53)"
    using v0 by (intro mult_left_mono) simp_all
  with y1 have up: "y \<le> 100 * v + v * (500 / 2 ^ 53)" by (simp add: algebra_simps)
  have l0: "0 \<le> v * 100 * (b * b * b)" using v0 by (simp add: b_def)
  have l1: "v * 100 * (b * b * b) \<le> w * 100" using lo unfolding b_def by simp
  have "v * 100 * (b * b * b) * b \<le> double (w * 100)"
    unfolding b_def by (rule double_lower [OF l0 [unfolded b_def] l1 [unfolded b_def]])
  then have y2: "v * (100 * (b * b * b * b)) \<le> y" by (simp add: y_def)
  have "100 - 400 / 2 ^ 53 \<le> 100 * (b * b * b * b)" by (simp add: b_def)
  then have "v * (100 - 400 / 2 ^ 53) \<le> v * (100 * (b * b * b * b))"
    using v0 by (intro mult_left_mono) simp_all
  with y2 have dn: "100 * v - v * (400 / 2 ^ 53) \<le> y" by (simp add: algebra_simps)
  have k1: "rat_of_int \<lfloor>y + 1 / 2\<rfloor> \<le> y + 1 / 2" and k2: "y + 1 / 2 < rat_of_int \<lfloor>y + 1 / 2\<rfloor> + 1"
    by linarith+
  have t: "v * (500 / 2 ^ 53) \<le> 100 * (v / 2 ^ 50)" "v * (400 / 2 ^ 53) \<le> 100 * (v / 2 ^ 50)"
    using v0 by simp_all
  have "\<bar>rat_of_int \<lfloor>y + 1 / 2\<rfloor> - 100 * v\<bar> \<le> 1 / 2 + 100 * (v / 2 ^ 50)"
    using up dn k1 k2 t by linarith
  then have "\<bar>(rat_of_int \<lfloor>y + 1 / 2\<rfloor> - 100 * v) / 100\<bar> \<le> (1 / 2 + 100 * (v / 2 ^ 50)) / 100"
    by (simp only: abs_divide) simp
  then show ?thesis by (simp add: y_def diff_divide_distrib)
qed

lemma round2_zero: "round2 0 = 0"
proof -
  have "\<lfloor>(1::rat) / 2\<rfloor> = 0" by (rule floor_unique) simp_all
  then show ?thesis by (simp add: round2_eq)
qed

lemma Math_round_of_int: "Math_round (of_int k) = of_int k"
proof -
  have "\<lfloor>rat_of_int k + 1 / 2\<rfloor> = k" by (rule floor_unique) simp_all
  then show ?thesis by (simp add: Math_round_def)
qed

lemma round2_of_int:
  assumes "0 \<le> k" and "k < 2 ^ 46"
  shows "round2 (of_int k) = of_int k"
proof -
  have "k * 100 < 2 ^ 53" using assms(2) by simp
  then have "double (rat_of_int (k * 100)) = of_int (k * 100)"
    using assms(1) by (intro double_of_int) simp_all
  then have "double (rat_of_int k * 100) = of_int (k * 100)" by simp
  moreover have "k < 2 ^ 53" using assms(2) by simp
  then have "double (rat_of_int k) = of_int k" using assms(1) by (intro double_of_int)
  moreover have "Math_round (rat_of_int k * 100) = of_int k * 100"
    using Math_round_of_int [of "k * 100"] by simp
  ultimately show ?thesis
    by (simp add: round2_def)
qed

lemma double_numeral: "numeral n < (2::int) ^ 53 \<Longrightarrow> double (numeral n) = numeral n"
  using double_of_int [of "numeral n"] by simp

lemma round2_numeral: "numeral n < (2::int) ^ 46 \<Longrightarrow> round2 (numeral n) = numeral n"
  using round2_of_int [of "numeral n"] by simp

subsection \<open>The services\<close>

lemma calculateNewWAC_eq:
  "calculateNewWAC q w a c =
     (if q + a \<le> 0 then 0 else double (double (double (q * w) + double (a * c)) / (q + a)))"
  by (auto simp: calculateNewWAC_def calculateWAC_def Let_def)

lemma wac_between:
  fixes q a w c :: rat
  assumes "0 \<le> q" "0 < a"
  shows "min w c \<le> (q * w + a * c) / (q + a)" "(q * w + a * c) / (q + a) \<le> max w c"
proof -
  have pos: "0 < q + a" using assms by simp
  have "min w c * (q + a) = q * min w c + a * min w c" by (simp add: algebra_simps)
  also have "\<dots> \<le> q * w + a * c"
    using assms by (intro add_mono mult_left_mono) auto
  finally show "min w c \<le> (q * w + a * c) / (q + a)"
    using pos by (simp add: pos_le_divide_eq)
  have "q * w + a * c \<le> q * max w c + a * max w c"
    using assms by (intro add_mono mult_left_mono) auto
  also have "\<dots> = max w c * (q + a)" by (simp add: algebra_simps)
  finally show "(q * w + a * c) / (q + a) \<le> max w c"
    using pos by (simp add: pos_divide_le_eq)
qed

lemma performStockIn_Some:
  assumes "array_find (\<lambda>p. p_id p = sip_productId params) products = Some product"
  shows "performStockIn e products params =
     Inr (map (\<lambda>p. if p_id p = sip_productId params
                   then product \<lparr> p_cost_price := sip_unitCost params,
                          p_quantity := p_quantity product + sip_quantity params,
                          p_wac_cost := round2 (calculateNewWAC (p_quantity product)
                             (p_wac_cost product) (sip_quantity params) (sip_unitCost params)),
                          p_updated_at := now e \<rparr> else p) products,
          \<lparr> sir_success = True,
            sir_product = product \<lparr> p_cost_price := sip_unitCost params,
                          p_quantity := p_quantity product + sip_quantity params,
                          p_wac_cost := round2 (calculateNewWAC (p_quantity product)
                             (p_wac_cost product) (sip_quantity params) (sip_unitCost params)),
                          p_updated_at := now e \<rparr>,
            sir_stockMovement =
                \<lparr> sm_id = now e,
                  sm_product_id = sip_productId params,
                  sm_type = Purchase,
                  sm_quantity = sip_quantity params,
                  sm_unit_cost = Some (sip_unitCost params),
                  sm_reference_id = sip_supplierId params,
                  sm_reference_type = Some ''PURCHASE'',
                  sm_notes = sip_notes params,
                  sm_user_id = sip_userId params,
                  sm_created_at = now e \<rparr>,
            sir_previousStock = p_quantity product,
            sir_previousWAC = p_wac_cost product,
            sir_newStock = p_quantity product + sip_quantity params,
            sir_newWAC = calculateNewWAC (p_quantity product)
                             (p_wac_cost product) (sip_quantity params) (sip_unitCost params) \<rparr>)"
  using assms by (simp add: performStockIn_def Let_def)

lemma stockAndCost_receipt:
  "stockAndCost (performStockIn e [demoProduct q w] (receipt a c)) =
     Inr [(q + a, round2 (calculateNewWAC q w a c))]"
  by (simp add: stockAndCost_def performStockIn_def demoProduct_def receipt_def Let_def)

lemma demoProduct_simps [simp]:
  "p_id (demoProduct q w) = 1" "p_quantity (demoProduct q w) = q"
  "p_wac_cost (demoProduct q w) = w"
  by (simp_all add: demoProduct_def)

lemma demoCustomer_simps [simp]:
  "c_id (demoCustomer i b) = i" "c_credit_balance (demoCustomer i b) = b"
  by (simp_all add: demoCustomer_def)




lemma sellProducts_length: "length (sellProducts e items products) = length products"
  by (simp add: sellProducts_def)

lemma sellProducts_nth:
  "i < length products \<Longrightarrow>
   sellProducts e items products ! i =
     (case array_find (\<lambda>item. p_id (ci_product item) = p_id (products ! i)) items of
        None \<Rightarrow> products ! i
      | Some soldItem \<Rightarrow>
          (products ! i) \<lparr> p_quantity := max 0 (p_quantity (products ! i) - ci_quantity soldItem),
                           p_updated_at := now e \<rparr>)"
  by (simp add: sellProducts_def)

lemma sellProducts_frame:
  "i < length products \<Longrightarrow>
   \<forall>item\<in>set items. p_id (ci_product item) \<noteq> p_id (products ! i) \<Longrightarrow>
   sellProducts e items products ! i = products ! i"
  using array_find_None_iff [of "\<lambda>item. p_id (ci_product item) = p_id (products ! i)" items]
  by (simp add: sellProducts_nth)

lemma setBalance_length: "length (setBalance e customerId b customers) = length customers"
  by (simp add: setBalance_def)

lemma setBalance_frame:
  "i < length customers \<Longrightarrow> c_id (customers ! i) \<noteq> customerId \<Longrightarrow>
   setBalance e customerId b customers ! i = customers ! i"
  by (simp add: setBalance_def)


lemma createCashSale_products:
  "snd (createCashSale e params products) = sellProducts e (sp_items params) products"
  by (simp add: createCashSale_def Let_def)

lemma createCashSale_success: "sr_success (fst (createCashSale e params products))"
  by (simp add: createCashSale_def Let_def)

lemma cash_sale_example:
  "snd (createCashSale demoEnv (cashParams [cartLine (demoProduct 5 100) 6 50])
          [demoProduct 5 100])
     = [(demoProduct 5 100) \<lparr> p_quantity := 0, p_updated_at := 1000 \<rparr>]"
  by (simp add: createCashSale_products sellProducts_def cashParams_def cartLine_def demoEnv_def)

lemma createKhataSale_found:
  assumes "array_find (\<lambda>c. c_id c = ksp_customerId params) customers = Some customer"
  shows "\<exists>out. createKhataSale e params products customers ledgerEntries = Inr out \<and>
     ks_updatedProducts out = sellProducts e (ksp_items params) products \<and>
     ks_updatedCustomers out =
       setBalance e (ksp_customerId params)
         (c_credit_balance customer
            + t_netAmount (calculateSaleTotals (ksp_items params) (ksp_discount params)))
         customers \<and>
     ks_newLedgerEntry out =
       \<lparr> le_id = nextLedgerId ledgerEntries,
         le_customer_id = ksp_customerId params,
         le_type = Credit,
         le_amount = t_netAmount (calculateSaleTotals (ksp_items params) (ksp_discount params)),
         le_balance = c_credit_balance customer
            + t_netAmount (calculateSaleTotals (ksp_items params) (ksp_discount params)),
         le_reference_id = Some (now e),
         le_reference_type = Some ''sale'',
         le_description = Some (''Credit Sale - Invoice #'' @ invoice e),
         le_user_id = ksp_userId params,
         le_created_at = now e \<rparr> \<and>
     sr_ledgerEntry (ks_sale out) = Some (ks_newLedgerEntry out) \<and>
     s_total (sr_sale (ks_sale out))
       = t_netAmount (calculateSaleTotals (ksp_items params) (ksp_discount params))"
  using assms by (simp add: createKhataSale_def Let_def)

lemma createKhataSale_InrD:
  assumes "createKhataSale e params products customers ledgerEntries = Inr out"
  shows "\<exists>customer.
     array_find (\<lambda>c. c_id c = ksp_customerId params) customers = Some customer \<and>
     ks_updatedProducts out = sellProducts e (ksp_items params) products \<and>
     ks_updatedCustomers out =
       setBalance e (ksp_customerId params)
         (c_credit_balance customer
            + t_netAmount (calculateSaleTotals (ksp_items params) (ksp_discount params)))
         customers \<and>
     le_customer_id (ks_newLedgerEntry out) = ksp_customerId params \<and>
     le_balance (ks_newLedgerEntry out) = c_credit_balance customer
            + t_netAmount (calculateSaleTotals (ksp_items params) (ksp_discount params))"
proof (cases "array_find (\<lambda>c. c_id c = ksp_customerId params) customers")
  case None
  then show ?thesis using assms by (simp add: createKhataSale_def)
next
  case (Some customer)
  from createKhataSale_found [OF Some, of e products ledgerEntries] assms
  show ?thesis using Some by auto
qed

lemma recordKhataPayment_found:
  assumes "array_find (\<lambda>c. c_id c = customerId) customers = Some customer"
  shows "\<exists>updatedCustomers entry.
     recordKhataPayment e customerId amount userId customers ledgerEntries description
       = Inr (updatedCustomers, entry)"
  using assms by (simp add: recordKhataPayment_def Let_def)

lemma recordKhataPayment_InrD:
  assumes "recordKhataPayment e customerId amount userId customers ledgerEntries description
             = Inr (updatedCustomers, entry)"
  shows "\<exists>customer.
     array_find (\<lambda>c. c_id c = customerId) customers = Some customer \<and>
     updatedCustomers = setBalance e customerId (c_credit_balance customer - amount) customers \<and>
     le_customer_id entry = customerId \<and>
     le_type entry = Debit \<and> le_amount entry = amount \<and>
     le_balance entry = c_credit_balance customer - amount"
  using assms
  by (auto simp: recordKhataPayment_def Let_def split: option.splits)







lemma lastRunningBalance_append:
  "lastRunningBalance customerId (ledgerEntries @ [entry]) =
     (if le_customer_id entry = customerId then le_balance entry
      else lastRunningBalance customerId ledgerEntries)"
  by (simp add: lastRunningBalance_def)

lemma balancesMatchLedger_setBalance:
  assumes inv: "balancesMatchLedger st"
    and cid: "le_customer_id entry = customerId" and bal: "le_balance entry = b"
  shows "balancesMatchLedger
     (st \<lparr> st_customers := setBalance e customerId b (st_customers st),
           st_ledgers := st_ledgers st @ [entry] \<rparr>)"
proof -
  have old: "c_credit_balance c = lastRunningBalance (c_id c) (st_ledgers st)"
    if "c \<in> set (st_customers st)" for c
    using inv that by (simp add: balancesMatchLedger_def list_all_iff)
  have "c_credit_balance c' = lastRunningBalance (c_id c') (st_ledgers st @ [entry])"
    if "c' \<in> set (setBalance e customerId b (st_customers st))" for c'
  proof -
    from that obtain c where c: "c \<in> set (st_customers st)"
      and c': "c' = (if c_id c \<noteq> customerId then c
                    else c \<lparr> c_credit_balance := b, c_updated_at := now e \<rparr>)"
      unfolding setBalance_def by (auto simp only: set_map image_iff)
    show ?thesis
    proof (cases "c_id c = customerId")
      case True
      then show ?thesis
        by (simp add: c' lastRunningBalance_append cid bal)
    next
      case False
      then show ?thesis
        by (simp add: c' lastRunningBalance_append cid old [OF c])
    qed
  qed
  then show ?thesis
    by (simp add: balancesMatchLedger_def list_all_iff)
qed

lemma balancesMatchLedger_commit:
  assumes "balancesMatchLedger st"
  shows "balancesMatchLedger (commit st step)"
proof (cases step)
  case (Pair e op)
  show ?thesis
  proof (cases op)
    case (StockReceipt params)
    show ?thesis
    proof (cases "performStockIn e (st_products st) params")
      case (Inl err)
      then show ?thesis using assms Pair StockReceipt by simp
    next
      case (Inr res)
      obtain updatedProducts result where "res = (updatedProducts, result)"
        by (cases res)
      then show ?thesis
        using assms Pair StockReceipt Inr by (simp add: balancesMatchLedger_def)
    qed
  next
    case (CashSale params)
    then show ?thesis using assms Pair by (simp add: balancesMatchLedger_def)
  next
    case (CreditSale params)
    show ?thesis
    proof (cases "createKhataSale e params (st_products st) (st_customers st) (st_ledgers st)")
      case (Inl err)
      then show ?thesis using assms Pair CreditSale by simp
    next
      case (Inr out)
      from createKhataSale_InrD [OF Inr] obtain customer :: Customer where
        cs: "ks_updatedCustomers out =
           setBalance e (ksp_customerId params)
             (c_credit_balance customer
                + t_netAmount (calculateSaleTotals (ksp_items params) (ksp_discount params)))
             (st_customers st)"
        and cid: "le_customer_id (ks_newLedgerEntry out) = ksp_customerId params"
        and bal: "le_balance (ks_newLedgerEntry out) = c_credit_balance customer
                + t_netAmount (calculateSaleTotals (ksp_items params) (ksp_discount params))"
        by auto
      have "balancesMatchLedger
         (st \<lparr> st_customers := ks_updatedCustomers out,
               st_ledgers := st_ledgers st @ [ks_newLedgerEntry out] \<rparr>)"
        unfolding cs by (rule balancesMatchLedger_setBalance [OF assms cid bal])
      then show ?thesis
        using Pair CreditSale Inr by (simp add: balancesMatchLedger_def)
    qed
  next
    case (Payment customerId amount userId description)
    show ?thesis
    proof (cases "recordKhataPayment e customerId amount userId (st_customers st)
                    (st_ledgers st) description")
      case (Inl err)
      then show ?thesis using assms Pair Payment by simp
    next
      case (Inr res)
      obtain updatedCustomers entry where res: "res = (updatedCustomers, entry)"
        by (cases res)
      from recordKhataPayment_InrD [OF Inr [unfolded res]] obtain customer :: Customer where
        cs: "updatedCustomers =
           setBalance e customerId (c_credit_balance customer - amount) (st_customers st)"
        and cid: "le_customer_id entry = customerId"
        and bal: "le_balance entry = c_credit_balance customer - amount"
        by auto
      have "balancesMatchLedger
         (st \<lparr> st_customers := updatedCustomers, st_ledgers := st_ledgers st @ [entry] \<rparr>)"
        unfolding cs by (rule balancesMatchLedger_setBalance [OF assms cid bal])
      then show ?thesis
        using Pair Payment Inr res by simp
    qed
  next
    case (ReduceStock productId quantity)
    then show ?thesis using assms Pair by (simp add: balancesMatchLedger_def)
  next
    case (StockOut input)
    show ?thesis
    proof (cases "stockOut e \<lparr> db_products = st_products st,
                     db_stock_movements = st_stock_movements st \<rparr> input")
      case (Inl err)
      then show ?thesis using assms Pair StockOut by simp
    next
      case (Inr res)
      obtain db' updatedProduct movement where "res = (db', updatedProduct, movement)"
        by (cases res)
      then show ?thesis
        using assms Pair StockOut Inr by (simp add: balancesMatchLedger_def)
    qed
  qed
qed


lemma demoLedgerOperations_run:
  "map c_credit_balance
     (st_customers (run (demoStore [demoProduct 5 30] [demoCustomer 3 0])
                      demoLedgerOperations)) = [60] \<and>
   map le_balance
     (st_ledgers (run (demoStore [demoProduct 5 30] [demoCustomer 3 0])
                    demoLedgerOperations)) = [100, 60]"
  by (simp add: run_def demoLedgerOperations_def demoStore_def createKhataSale_def
        recordKhataPayment_def setBalance_def calculateSaleTotals_def Let_def
        khataParams_def cartLine_def)




lemma mset_insert_sorted: "mset (insert_sorted compare x ys) = add_mset x (mset ys)"
  by (induction ys) simp_all

lemma mset_array_sort: "mset (array_sort compare xs) = mset xs"
  unfolding array_sort_def by (induction xs) (simp_all add: mset_insert_sorted)

lemma set_insert_sorted: "set (insert_sorted compare x ys) = insert x (set ys)"
  using mset_insert_sorted [of compare x ys, THEN arg_cong, of set_mset] by simp

lemma sorted_insert_sorted:
  fixes t :: "'a \<Rightarrow> int"
  assumes "sorted_wrt (\<lambda>a b. t b \<le> t a) ys"
  shows "sorted_wrt (\<lambda>a b. t b \<le> t a) (insert_sorted (\<lambda>a b. t b - t a) x ys)"
  using assms
proof (induction ys)
  case Nil
  then show ?case by simp
next
  case (Cons y ys)
  show ?case
  proof (cases "t y - t x \<le> 0")
    case True
    then have "\<forall>z\<in>set (y # ys). t z \<le> t x"
      using Cons.prems by fastforce
    then show ?thesis using True Cons.prems by simp
  next
    case False
    then show ?thesis
      using Cons by (auto simp: set_insert_sorted)
  qed
qed

lemma sorted_array_sort:
  fixes t :: "'a \<Rightarrow> int"
  shows "sorted_wrt (\<lambda>a b. t b \<le> t a) (array_sort (\<lambda>a b. t b - t a) xs)"
  unfolding array_sort_def by (induction xs) (simp_all add: sorted_insert_sorted)

lemma filter_insert_sorted:
  fixes t :: "'a \<Rightarrow> int"
  shows "filter (\<lambda>e. t e = k) (insert_sorted (\<lambda>a b. t b - t a) x ys) =
     (if t x = k then x # filter (\<lambda>e. t e = k) ys else filter (\<lambda>e. t e = k) ys)"
  by (induction ys) auto

lemma filter_array_sort:
  fixes t :: "'a \<Rightarrow> int"
  shows "filter (\<lambda>e. t e = k) (array_sort (\<lambda>a b. t b - t a) xs) = filter (\<lambda>e. t e = k) xs"
  unfolding array_sort_def by (induction xs) (simp_all add: filter_insert_sorted)

lemma demo_statement:
  "getCustomerLedgerStatement 3
     [demoEntry 1 3 100, demoEntry 2 3 100, demoEntry 3 4 300, demoEntry 4 3 200]
   = [demoEntry 4 3 200, demoEntry 1 3 100, demoEntry 2 3 100]"
  by (simp add: getCustomerLedgerStatement_def array_sort_def demoEntry_def)

lemma double_eighth: "double (1 / 8) = 1 / 8"
  by (rule double_evalI [where e = "- 3" and m = "2 ^ 52"]) simp_all

lemma double_quarter: "double (1 / 4) = 1 / 4"
  by (rule double_evalI [where e = "- 2" and m = "2 ^ 52"]) simp_all

lemma double_25_halves: "double (25 / 2) = 25 / 2"
  by (rule double_evalI [where e = 3 and m = "25 * 2 ^ 48"]) simp_all

lemma round2_eighth: "round2 (1 / 8) = 1170935903116329 / 9007199254740992"
proof -
  have "Math_round (25 / 2) = of_int 13"
    by (rule Math_round_eqI) simp_all
  then show ?thesis
    by (simp add: round2_def double_25_halves double_13_cents)
qed

lemma stored_wac_between:
  assumes q: "0 \<le> q" and a: "0 < a"
    and lo: "q * m \<le> q * w" "m \<le> c" and hi: "q * w \<le> q * M" "c \<le> M"
    and m: "0 \<le> m" "m \<le> 10 ^ 12" "round2 m = m"
    and M: "0 \<le> M" "M \<le> 10 ^ 12" "round2 M = M"
  shows "m \<le> round2 (calculateNewWAC q w a c)" and "round2 (calculateNewWAC q w a c) \<le> M"
proof -
  let ?v = "(q * w + a * c) / (q + a)"
  let ?w = "double (double (double (q * w) + double (a * c)) / (q + a))"
  have T: "0 < q + a" using q a by simp
  have x1: "0 \<le> q * w" using lo(1) q m(1) mult_nonneg_nonneg [of q m] by linarith
  have "0 \<le> a * m" using a m(1) by simp
  moreover have "a * m \<le> a * c" using a lo(2) by (intro mult_left_mono) simp_all
  ultimately have x2: "0 \<le> a * c" by (rule order_trans)
  have eq: "calculateNewWAC q w a c = ?w" using T by (simp add: calculateNewWAC_eq)
  have am: "a * m \<le> a * c" using a lo(2) by (intro mult_left_mono) simp_all
  have aM: "a * c \<le> a * M" using a hi(2) by (intro mult_left_mono) simp_all
  have "m * (q + a) = q * m + a * m" by (simp add: algebra_simps)
  also have "\<dots> \<le> q * w + a * c" using lo(1) am by (rule add_mono)
  finally have vlo: "m \<le> ?v" using T by (simp add: pos_le_divide_eq)
  have "q * w + a * c \<le> q * M + a * M" using hi(1) aM by (rule add_mono)
  also have "\<dots> = M * (q + a)" by (simp add: algebra_simps)
  finally have vhi: "?v \<le> M" using T by (simp add: pos_divide_le_eq)
  have w0: "0 \<le> ?w"
    using x1 x2 T by (intro double_nonneg divide_nonneg_pos add_nonneg_nonneg) simp_all
  have "?w \<le> ?v * ((1 + 1 / 2 ^ 53) * (1 + 1 / 2 ^ 53) * (1 + 1 / 2 ^ 53))"
    by (rule wac_value_upper [OF x1 x2 T])
  also have "\<dots> \<le> M * ((1 + 1 / 2 ^ 53) * (1 + 1 / 2 ^ 53) * (1 + 1 / 2 ^ 53))"
    using vhi by (intro mult_right_mono) simp_all
  finally have up: "?w \<le> M * ((1 + 1 / 2 ^ 53) * (1 + 1 / 2 ^ 53) * (1 + 1 / 2 ^ 53))" .
  have "m * ((1 - 1 / 2 ^ 53) * (1 - 1 / 2 ^ 53) * (1 - 1 / 2 ^ 53))
      \<le> ?v * ((1 - 1 / 2 ^ 53) * (1 - 1 / 2 ^ 53) * (1 - 1 / 2 ^ 53))"
    using vlo by (intro mult_right_mono) simp_all
  also have "\<dots> \<le> ?w" by (rule wac_value_lower [OF x1 x2 T])
  finally have dn: "m * ((1 - 1 / 2 ^ 53) * (1 - 1 / 2 ^ 53) * (1 - 1 / 2 ^ 53)) \<le> ?w" .
  show "m \<le> round2 (calculateNewWAC q w a c)"
    unfolding eq by (rule cents_lower [OF dn m(3) m(1) m(2)])
  show "round2 (calculateNewWAC q w a c) \<le> M"
    unfolding eq by (rule cents_upper [OF w0 up M(3) M(1) M(2)])
qed

lemma stored_wac_near_average:
  assumes q: "0 \<le> q" and a: "0 < a" and w: "0 \<le> w" and c: "0 \<le> c"
  shows "\<exists>cents. round2 (calculateNewWAC q w a c) = double (rat_of_int cents / 100) \<and>
     \<bar>rat_of_int cents / 100 - (q * w + a * c) / (q + a)\<bar>
       \<le> 1 / 200 + (q * w + a * c) / (q + a) / 2 ^ 50"
proof -
  let ?v = "(q * w + a * c) / (q + a)"
  let ?w = "double (double (double (q * w) + double (a * c)) / (q + a))"
  have T: "0 < q + a" using q a by simp
  have x1: "0 \<le> q * w" using q w by simp
  have x2: "0 \<le> a * c" using a c by simp
  have eq: "calculateNewWAC q w a c = ?w" using T by (simp add: calculateNewWAC_eq)
  have v0: "0 \<le> ?v" using x1 x2 T by simp
  have "\<bar>rat_of_int \<lfloor>double (?w * 100) + 1 / 2\<rfloor> / 100 - ?v\<bar> \<le> 1 / 200 + ?v / 2 ^ 50"
    by (rule cents_error [OF v0 wac_value_lower [OF x1 x2 T] wac_value_upper [OF x1 x2 T]])
  moreover have "round2 (calculateNewWAC q w a c)
      = double (rat_of_int \<lfloor>double (?w * 100) + 1 / 2\<rfloor> / 100)"
    by (simp only: eq round2_eq)
  ultimately show ?thesis by blast
qed

lemma array_find_distinct:
  "distinct (map f xs) \<Longrightarrow> x \<in> set xs \<Longrightarrow> array_find (\<lambda>y. f y = f x) xs = Some x"
  by (induction xs) (auto simp: image_iff)

lemma sellProducts_line:
  assumes "distinct (map (\<lambda>item. p_id (ci_product item)) items)"
    and "i < length products" and "item \<in> set items"
    and "p_id (ci_product item) = p_id (products ! i)"
  shows "sellProducts e items products ! i =
     (products ! i) \<lparr> p_quantity := max 0 (p_quantity (products ! i) - ci_quantity item),
                      p_updated_at := now e \<rparr>"
proof -
  have "array_find (\<lambda>y. p_id (ci_product y) = p_id (ci_product item)) items = Some item"
    using assms(1,3) by (rule array_find_distinct)
  then show ?thesis
    using assms(2,4) by (simp add: sellProducts_nth)
qed

lemma commit_ledger_cases:
  "(st_ledgers (commit st step) = st_ledgers st \<and>
    st_customers (commit st step) = st_customers st) \<or>
   (\<exists>entry. st_ledgers (commit st step) = st_ledgers st @ [entry] \<and>
      st_customers (commit st step)
        = setBalance (fst step) (le_customer_id entry) (le_balance entry) (st_customers st))"
proof (cases step)
  case (Pair e op)
  show ?thesis
  proof (cases op)
    case (StockReceipt params)
    show ?thesis
    proof (cases "performStockIn e (st_products st) params")
      case (Inl err)
      then show ?thesis using Pair StockReceipt by simp
    next
      case (Inr res)
      obtain updatedProducts result where "res = (updatedProducts, result)"
        by (cases res)
      then show ?thesis using Pair StockReceipt Inr by simp
    qed
  next
    case (CashSale params)
    then show ?thesis using Pair by simp
  next
    case (CreditSale params)
    show ?thesis
    proof (cases "createKhataSale e params (st_products st) (st_customers st) (st_ledgers st)")
      case (Inl err)
      then show ?thesis using Pair CreditSale by simp
    next
      case (Inr out)
      from createKhataSale_InrD [OF Inr] obtain customer :: Customer where
        cs: "ks_updatedCustomers out =
           setBalance e (ksp_customerId params)
             (c_credit_balance customer
                + t_netAmount (calculateSaleTotals (ksp_items params) (ksp_discount params)))
             (st_customers st)"
        and cid: "le_customer_id (ks_newLedgerEntry out) = ksp_customerId params"
        and bal: "le_balance (ks_newLedgerEntry out) = c_credit_balance customer
                + t_netAmount (calculateSaleTotals (ksp_items params) (ksp_discount params))"
        by auto
      have "st_ledgers (commit st step) = st_ledgers st @ [ks_newLedgerEntry out]"
        using Pair CreditSale Inr by simp
      moreover have "st_customers (commit st step)
          = setBalance (fst step) (le_customer_id (ks_newLedgerEntry out))
              (le_balance (ks_newLedgerEntry out)) (st_customers st)"
        using Pair CreditSale Inr by (simp add: cs cid bal)
      ultimately show ?thesis by blast
    qed
  next
    case (Payment customerId amount userId description)
    show ?thesis
    proof (cases "recordKhataPayment e customerId amount userId (st_customers st)
                    (st_ledgers st) description")
      case (Inl err)
      then show ?thesis using Pair Payment by simp
    next
      case (Inr res)
      obtain updatedCustomers entry where res: "res = (updatedCustomers, entry)"
        by (cases res)
      from recordKhataPayment_InrD [OF Inr [unfolded res]] obtain customer :: Customer where
        cs: "updatedCustomers =
           setBalance e customerId (c_credit_balance customer - amount) (st_customers st)"
        and cid: "le_customer_id entry = customerId"
        and bal: "le_balance entry = c_credit_balance customer - amount"
        by auto
      have "st_ledgers (commit st step) = st_ledgers st @ [entry]"
        using Pair Payment Inr res by simp
      moreover have "st_customers (commit st step)
          = setBalance (fst step) (le_customer_id entry) (le_balance entry) (st_customers st)"
        using Pair Payment Inr res by (simp add: cs cid bal)
      ultimately show ?thesis by blast
    qed
  next
    case (ReduceStock productId quantity)
    then show ?thesis using Pair by simp
  next
    case (StockOut input)
    show ?thesis
    proof (cases "stockOut e \<lparr> db_products = st_products st,
                     db_stock_movements = st_stock_movements st \<rparr> input")
      case (Inl err)
      then show ?thesis using Pair StockOut by simp
    next
      case (Inr res)
      obtain db' updatedProduct movement where "res = (db', updatedProduct, movement)"
        by (cases res)
      then show ?thesis using Pair StockOut Inr by simp
    qed
  qed
qed

lemma run_snoc: "run st (ops @ [step]) = commit (run st ops) step"
  by (simp add: run_def)

lemma ledger_tracking:
  "\<exists>new. st_ledgers (run st ops) = st_ledgers st @ new \<and>
     (\<forall>c\<in>set (st_customers (run st ops)).
        ((\<exists>entry\<in>set new. le_customer_id entry = c_id c) \<longrightarrow>
           c_credit_balance c = lastRunningBalance (c_id c) (st_ledgers (run st ops))) \<and>
        ((\<forall>entry\<in>set new. le_customer_id entry \<noteq> c_id c) \<longrightarrow> c \<in> set (st_customers st)))"
proof (induction ops rule: rev_induct)
  case Nil
  show ?case by (simp add: run_def)
next
  case (snoc step ops)
  let ?st = "run st ops"
  from snoc obtain new where led: "st_ledgers ?st = st_ledgers st @ new"
    and touched: "\<And>c. c \<in> set (st_customers ?st) \<Longrightarrow>
        \<exists>entry\<in>set new. le_customer_id entry = c_id c \<Longrightarrow>
        c_credit_balance c = lastRunningBalance (c_id c) (st_ledgers ?st)"
    and untouched: "\<And>c. c \<in> set (st_customers ?st) \<Longrightarrow>
        \<forall>entry\<in>set new. le_customer_id entry \<noteq> c_id c \<Longrightarrow> c \<in> set (st_customers st)"
    by blast
  from commit_ledger_cases [of ?st step]
  show ?case
  proof
    assume same: "st_ledgers (commit ?st step) = st_ledgers ?st \<and>
      st_customers (commit ?st step) = st_customers ?st"
    have "st_ledgers (run st (ops @ [step])) = st_ledgers st @ new"
      using same led by (simp add: run_snoc)
    moreover have "\<forall>c\<in>set (st_customers (run st (ops @ [step]))).
        ((\<exists>entry\<in>set new. le_customer_id entry = c_id c) \<longrightarrow>
           c_credit_balance c
             = lastRunningBalance (c_id c) (st_ledgers (run st (ops @ [step])))) \<and>
        ((\<forall>entry\<in>set new. le_customer_id entry \<noteq> c_id c) \<longrightarrow> c \<in> set (st_customers st))"
      using same touched untouched by (simp add: run_snoc)
    ultimately show ?thesis by blast
  next
    assume "\<exists>entry. st_ledgers (commit ?st step) = st_ledgers ?st @ [entry] \<and>
      st_customers (commit ?st step)
        = setBalance (fst step) (le_customer_id entry) (le_balance entry) (st_customers ?st)"
    then obtain entry where led': "st_ledgers (commit ?st step) = st_ledgers ?st @ [entry]"
      and cs': "st_customers (commit ?st step)
        = setBalance (fst step) (le_customer_id entry) (le_balance entry) (st_customers ?st)"
      by blast
    have l: "st_ledgers (run st (ops @ [step])) = st_ledgers st @ (new @ [entry])"
      using led led' by (simp add: run_snoc)
    have "((\<exists>x\<in>set (new @ [entry]). le_customer_id x = c_id c') \<longrightarrow>
           c_credit_balance c'
             = lastRunningBalance (c_id c') (st_ledgers (run st (ops @ [step])))) \<and>
        ((\<forall>x\<in>set (new @ [entry]). le_customer_id x \<noteq> c_id c') \<longrightarrow>
           c' \<in> set (st_customers st))"
      if "c' \<in> set (st_customers (run st (ops @ [step])))" for c'
    proof -
      from that obtain c where c: "c \<in> set (st_customers ?st)"
        and c': "c' = (if c_id c \<noteq> le_customer_id entry then c
                      else c \<lparr> c_credit_balance := le_balance entry,
                               c_updated_at := now (fst step) \<rparr>)"
        unfolding run_snoc cs' setBalance_def by (auto simp only: set_map image_iff)
      show ?thesis
      proof (cases "c_id c = le_customer_id entry")
        case True
        then show ?thesis
          by (simp add: c' run_snoc led' lastRunningBalance_append)
      next
        case False
        then have eq: "c' = c" by (simp add: c')
        have last_eq: "lastRunningBalance (c_id c) (st_ledgers (run st (ops @ [step])))
            = lastRunningBalance (c_id c) (st_ledgers ?st)"
          using False by (simp add: run_snoc led' lastRunningBalance_append)
        show ?thesis
          unfolding eq last_eq using False touched [OF c] untouched [OF c] by auto
      qed
    qed
    with l show ?thesis by blast
  qed
qed

lemma balancesMatchLedger_run:
  assumes "balancesMatchLedger st"
  shows "balancesMatchLedger (run st ops)"
  using assms unfolding run_def
proof (induction ops arbitrary: st)
  case Nil
  then show ?case by simp
next
  case (Cons step ops)
  then show ?case by (simp add: balancesMatchLedger_commit)
qed

lemma demoSeededStore_run:
  "st_customers (run demoSeededStore demoLedgerOperations)
     = [demoCustomer 1 15000,
        (demoCustomer 3 0) \<lparr> c_credit_balance := 60, c_updated_at := 1000 \<rparr>] \<and>
   map le_customer_id (st_ledgers (run demoSeededStore demoLedgerOperations)) = [3, 3] \<and>
   map le_balance (st_ledgers (run demoSeededStore demoLedgerOperations)) = [100, 60]"
  by (simp add: run_def demoLedgerOperations_def demoSeededStore_def demoStore_def
        createKhataSale_def recordKhataPayment_def setBalance_def calculateSaleTotals_def
        Let_def khataParams_def cartLine_def demoEnv_def)

section \<open>Stock receipts\<close>

text \<open>
  Claim C2, as the code has it. Take a stock receipt of a positive whole quantity on
  an existing product that holds a whole, non-negative quantity, the two together at
  most \<open>2 ^ 53\<close>, where the unit cost and the current cost are whole-cent amounts
  (left as they are by the rounding to two decimals) between 0 and \<open>10 ^ 12\<close>. It
  succeeds, the stored product is the one the result reports, and its quantity is
  the sum of the two quantities. The stored cost is the double nearest to a
  whole-cent amount that lies within half a cent, and a relative \<open>2 ^ - 50\<close> for
  the rounding of the doubles, of the weighted average
  \<open>(currentQuantity * currentWac + addedQuantity * unitCost) / (currentQuantity + addedQuantity)\<close>.
  With a current quantity of 0 the stored cost is the unit cost.
\<close>

theorem performStockIn_weighted_average:
  assumes found: "array_find (\<lambda>p. p_id p = sip_productId params) products = Some product"
    and qty: "0 < sip_quantity params" "sip_quantity params \<in> \<int>"
    and stock: "0 \<le> p_quantity product" "p_quantity product \<in> \<int>"
      "p_quantity product + sip_quantity params \<le> 2 ^ 53"
    and cost: "0 \<le> sip_unitCost params" "sip_unitCost params \<le> 10 ^ 12"
      "round2 (sip_unitCost params) = sip_unitCost params"
    and wac: "0 \<le> p_wac_cost product" "p_wac_cost product \<le> 10 ^ 12"
      "round2 (p_wac_cost product) = p_wac_cost product"
  shows "\<exists>updatedProducts result cents.
     performStockIn e products params = Inr (updatedProducts, result) \<and>
     array_find (\<lambda>p. p_id p = sip_productId params) updatedProducts = Some (sir_product result) \<and>
     p_quantity (sir_product result) = p_quantity product + sip_quantity params \<and>
     p_wac_cost (sir_product result) = double (rat_of_int cents / 100) \<and>
     \<bar>rat_of_int cents / 100
        - (p_quantity product * p_wac_cost product + sip_quantity params * sip_unitCost params)
          / (p_quantity product + sip_quantity params)\<bar>
       \<le> 1 / 200
          + (p_quantity product * p_wac_cost product + sip_quantity params * sip_unitCost params)
            / (p_quantity product + sip_quantity params) / 2 ^ 50 \<and>
     (p_quantity product = 0 \<longrightarrow> p_wac_cost (sir_product result) = sip_unitCost params)"
proof -
  let ?q = "p_quantity product" and ?w = "p_wac_cost product"
  let ?a = "sip_quantity params" and ?c = "sip_unitCost params"
  let ?u = "\<lambda>y::Product. product \<lparr> p_cost_price := ?c, p_quantity := ?q + ?a,
                          p_wac_cost := round2 (calculateNewWAC ?q ?w ?a ?c),
                          p_updated_at := now e \<rparr>"
  have pid: "p_id product = sip_productId params"
    using array_find_SomeD [OF found] by simp
  have stored: "array_find (\<lambda>p. p_id p = sip_productId params)
      (map (\<lambda>p. if p_id p = sip_productId params then ?u p else p) products) = Some (?u product)"
    by (rule array_find_map_update [OF found]) (simp add: pid)
  from stored_wac_near_average [OF stock(1) qty(1) wac(1) cost(1)]
  obtain cents where cents: "round2 (calculateNewWAC ?q ?w ?a ?c) = double (rat_of_int cents / 100)"
    and near: "\<bar>rat_of_int cents / 100 - (?q * ?w + ?a * ?c) / (?q + ?a)\<bar>
       \<le> 1 / 200 + (?q * ?w + ?a * ?c) / (?q + ?a) / 2 ^ 50"
    by blast
  have empty: "round2 (calculateNewWAC ?q ?w ?a ?c) = ?c" if "?q = 0"
  proof -
    have "?c \<le> round2 (calculateNewWAC ?q ?w ?a ?c)"
      by (rule stored_wac_between(1) [where M = "?c"])
         (use that qty(1) cost in simp_all)
    moreover have "round2 (calculateNewWAC ?q ?w ?a ?c) \<le> ?c"
      by (rule stored_wac_between(2) [where m = "?c"])
         (use that qty(1) cost in simp_all)
    ultimately show ?thesis by simp
  qed
  show ?thesis
    unfolding performStockIn_Some [OF found]
    using stored cents near empty by auto
qed

text \<open>
  The scenario of the specification: from quantity 0, ten units at 100.00 give
  quantity 10 at cost 100.00, and ten more at 120.00 give quantity 20 at cost 110.00.
\<close>

theorem performStockIn_weighted_average_witness:
  "array_find (\<lambda>p. p_id p = sip_productId (receipt 10 100)) [demoProduct 0 0]
     = Some (demoProduct 0 0) \<and>
   0 < sip_quantity (receipt 10 100) \<and> sip_quantity (receipt 10 100) \<in> \<int> \<and>
   p_quantity (demoProduct 0 0) = 0 \<and>
   0 \<le> sip_unitCost (receipt 10 100) \<and> sip_unitCost (receipt 10 100) \<le> 10 ^ 12 \<and>
   round2 (sip_unitCost (receipt 10 100)) = sip_unitCost (receipt 10 100) \<and>
   round2 (p_wac_cost (demoProduct 0 0)) = p_wac_cost (demoProduct 0 0) \<and>
   (\<exists>updatedProducts result.
      performStockIn demoEnv [demoProduct 0 0] (receipt 10 100)
        = Inr (updatedProducts, result) \<and>
      p_quantity (sir_product result) = 10 \<and> p_wac_cost (sir_product result) = 100) \<and>
   array_find (\<lambda>p. p_id p = sip_productId (receipt 10 120)) [demoProduct 10 100]
     = Some (demoProduct 10 100) \<and>
   round2 (sip_unitCost (receipt 10 120)) = sip_unitCost (receipt 10 120) \<and>
   round2 (p_wac_cost (demoProduct 10 100)) = p_wac_cost (demoProduct 10 100) \<and>
   (\<exists>updatedProducts result.
      performStockIn demoEnv [demoProduct 10 100] (receipt 10 120)
        = Inr (updatedProducts, result) \<and>
      p_quantity (sir_product result) = 20) \<and>
   stockAndCost (performStockIn demoEnv [demoProduct 10 100] (receipt 10 120)) = Inr [(20, 110)]"
proof -
  have found1: "array_find (\<lambda>p. p_id p = sip_productId (receipt 10 100)) [demoProduct 0 0]
     = Some (demoProduct 0 0)"
    by (simp add: receipt_def)
  have found2: "array_find (\<lambda>p. p_id p = sip_productId (receipt 10 120)) [demoProduct 10 100]
     = Some (demoProduct 10 100)"
    by (simp add: receipt_def)
  have qty1: "0 < sip_quantity (receipt 10 100)" "sip_quantity (receipt 10 100) \<in> \<int>"
    and qty2: "0 < sip_quantity (receipt 10 120)" "sip_quantity (receipt 10 120) \<in> \<int>"
    by (simp_all add: receipt_def)
  have stock1: "0 \<le> p_quantity (demoProduct 0 0)" "p_quantity (demoProduct 0 0) \<in> \<int>"
      "p_quantity (demoProduct 0 0) + sip_quantity (receipt 10 100) \<le> 2 ^ 53"
    and stock2: "0 \<le> p_quantity (demoProduct 10 100)" "p_quantity (demoProduct 10 100) \<in> \<int>"
      "p_quantity (demoProduct 10 100) + sip_quantity (receipt 10 120) \<le> 2 ^ 53"
    by (simp_all add: receipt_def)
  have cost1: "0 \<le> sip_unitCost (receipt 10 100)" "sip_unitCost (receipt 10 100) \<le> 10 ^ 12"
      "round2 (sip_unitCost (receipt 10 100)) = sip_unitCost (receipt 10 100)"
    and cost2: "0 \<le> sip_unitCost (receipt 10 120)" "sip_unitCost (receipt 10 120) \<le> 10 ^ 12"
      "round2 (sip_unitCost (receipt 10 120)) = sip_unitCost (receipt 10 120)"
    by (simp_all add: receipt_def round2_numeral)
  have wac1: "0 \<le> p_wac_cost (demoProduct 0 0)" "p_wac_cost (demoProduct 0 0) \<le> 10 ^ 12"
      "round2 (p_wac_cost (demoProduct 0 0)) = p_wac_cost (demoProduct 0 0)"
    and wac2: "0 \<le> p_wac_cost (demoProduct 10 100)" "p_wac_cost (demoProduct 10 100) \<le> 10 ^ 12"
      "round2 (p_wac_cost (demoProduct 10 100)) = p_wac_cost (demoProduct 10 100)"
    by (simp_all add: round2_numeral round2_zero)
  have empty: "p_quantity (demoProduct 0 0) = 0"
    by simp
  have first: "\<exists>updatedProducts result.
      performStockIn demoEnv [demoProduct 0 0] (receipt 10 100)
        = Inr (updatedProducts, result) \<and>
      p_quantity (sir_product result) = 10 \<and> p_wac_cost (sir_product result) = 100"
    using performStockIn_weighted_average [OF found1 qty1 stock1 cost1 wac1, of demoEnv]
    by (auto simp: receipt_def)
  have second: "\<exists>updatedProducts result.
      performStockIn demoEnv [demoProduct 10 100] (receipt 10 120)
        = Inr (updatedProducts, result) \<and>
      p_quantity (sir_product result) = 20"
    using performStockIn_weighted_average [OF found2 qty2 stock2 cost2 wac2, of demoEnv]
    by (auto simp: receipt_def)
  have "calculateNewWAC 10 100 10 120 = 110"
    by (simp add: calculateNewWAC_eq double_numeral)
  then have s2: "stockAndCost (performStockIn demoEnv [demoProduct 10 100] (receipt 10 120))
      = Inr [(20, 110)]"
    by (simp add: stockAndCost_receipt round2_numeral)
  show ?thesis
    using found1 qty1 empty cost1 wac1(3) first found2 cost2(3) wac2(3) second s2 by blast
qed

text \<open>
  The stored cost is not always the unit cost when the current quantity is 0: one unit
  received at 0.125 is stored at 0.13. Nor is it always the weighted average rounded
  to two decimals: for one unit held at 1.00 and one received at 1.01 that rounding
  gives 1.01, and the code, whose doubles put the hundredfold of the average just
  below 100.5, stores 1.00.
\<close>

theorem zero_stock_receipt_counterexample:
  "p_quantity (demoProduct 0 0) = 0 \<and> 0 < sip_quantity (receipt 1 (1 / 8)) \<and>
   sip_unitCost (receipt 1 (1 / 8)) = 1 / 8 \<and>
   stockAndCost (performStockIn demoEnv [demoProduct 0 0] (receipt 1 (1 / 8)))
     = Inr [(1, 1170935903116329 / 9007199254740992)] \<and>
   (1170935903116329 / 9007199254740992 :: rat) \<noteq> 1 / 8 \<and>
   stockAndCost (performStockIn demoEnv [demoProduct 1 1] (receipt 1 (double (101 / 100))))
     = Inr [(2, 1)] \<and>
   round2_spec ((1 * 1 + 1 * double (101 / 100)) / (1 + 1)) = 101 / 100"
proof -
  have w: "calculateNewWAC 0 0 1 (1 / 8) = 1 / 8"
    by (simp add: calculateNewWAC_eq double_eighth)
  have a: "stockAndCost (performStockIn demoEnv [demoProduct 0 0] (receipt 1 (1 / 8)))
     = Inr [(1, 1170935903116329 / 9007199254740992)]"
    by (simp only: stockAndCost_receipt w round2_eighth) simp
  have b: "stockAndCost (performStockIn demoEnv [demoProduct 1 1] (receipt 1 (double (101 / 100))))
     = Inr [(2, 1)]"
    by (simp add: stockAndCost_receipt tie_stored)
  have "\<lfloor>(1 + 4548635623644201 / 4503599627370496) / 2 * 100 + 1 / (2::rat)\<rfloor> = 101"
    by (rule floor_unique) simp_all
  then have c: "round2_spec ((1 * 1 + 1 * double (101 / 100)) / (1 + 1)) = 101 / 100"
    by (simp add: round2_spec_def double_101_cents)
  show ?thesis
    using a b c by (simp add: receipt_def)
qed

text \<open>
  Claim C7, as the code has it. For a receipt of a positive whole quantity on a
  product that holds a whole, non-negative quantity, the two together at most
  \<open>2 ^ 53\<close>, the cost stored on the product after the rounding to two decimals lies
  between the smaller and the larger of the current cost and the unit cost, provided
  that both are whole-cent amounts (left as they are by that rounding) between 0 and
  \<open>10 ^ 12\<close>.
\<close>

theorem performStockIn_rounded_wac_between:
  assumes found: "array_find (\<lambda>p. p_id p = sip_productId params) products = Some product"
    and qty: "0 < sip_quantity params" "sip_quantity params \<in> \<int>"
    and stock: "0 \<le> p_quantity product" "p_quantity product \<in> \<int>"
      "p_quantity product + sip_quantity params \<le> 2 ^ 53"
    and cost: "0 \<le> sip_unitCost params" "sip_unitCost params \<le> 10 ^ 12"
      "round2 (sip_unitCost params) = sip_unitCost params"
    and wac: "0 \<le> p_wac_cost product" "p_wac_cost product \<le> 10 ^ 12"
      "round2 (p_wac_cost product) = p_wac_cost product"
  shows "\<exists>updatedProducts result.
     performStockIn e products params = Inr (updatedProducts, result) \<and>
     array_find (\<lambda>p. p_id p = sip_productId params) updatedProducts = Some (sir_product result) \<and>
     min (p_wac_cost product) (sip_unitCost params) \<le> p_wac_cost (sir_product result) \<and>
     p_wac_cost (sir_product result) \<le> max (p_wac_cost product) (sip_unitCost params)"
proof -
  let ?q = "p_quantity product" and ?w = "p_wac_cost product"
  let ?a = "sip_quantity params" and ?c = "sip_unitCost params"
  let ?u = "\<lambda>y::Product. product \<lparr> p_cost_price := ?c, p_quantity := ?q + ?a,
                          p_wac_cost := round2 (calculateNewWAC ?q ?w ?a ?c),
                          p_updated_at := now e \<rparr>"
  have pid: "p_id product = sip_productId params"
    using array_find_SomeD [OF found] by simp
  have stored: "array_find (\<lambda>p. p_id p = sip_productId params)
      (map (\<lambda>p. if p_id p = sip_productId params then ?u p else p) products) = Some (?u product)"
    by (rule array_find_map_update [OF found]) (simp add: pid)
  have lo1: "?q * min ?w ?c \<le> ?q * ?w" and hi1: "?q * ?w \<le> ?q * max ?w ?c"
    using stock(1) by (simp_all add: mult_left_mono)
  have m: "0 \<le> min ?w ?c" "min ?w ?c \<le> 10 ^ 12" "round2 (min ?w ?c) = min ?w ?c"
    using cost wac by (simp_all add: min_def)
  have M: "0 \<le> max ?w ?c" "max ?w ?c \<le> 10 ^ 12" "round2 (max ?w ?c) = max ?w ?c"
    using cost wac by (simp_all add: max_def)
  have rlo: "min ?w ?c \<le> round2 (calculateNewWAC ?q ?w ?a ?c)"
    by (rule stored_wac_between(1) [OF stock(1) qty(1) lo1 _ hi1 _ m M]) simp_all
  have rhi: "round2 (calculateNewWAC ?q ?w ?a ?c) \<le> max ?w ?c"
    by (rule stored_wac_between(2) [OF stock(1) qty(1) lo1 _ hi1 _ m M]) simp_all
  show ?thesis
    unfolding performStockIn_Some [OF found]
    using stored rlo rhi by simp
qed

theorem performStockIn_rounded_wac_between_witness:
  "array_find (\<lambda>p. p_id p = sip_productId (receipt 10 120)) [demoProduct 10 100]
     = Some (demoProduct 10 100) \<and>
   0 < sip_quantity (receipt 10 120) \<and> sip_quantity (receipt 10 120) \<in> \<int> \<and>
   0 \<le> p_quantity (demoProduct 10 100) \<and> p_quantity (demoProduct 10 100) \<in> \<int> \<and>
   p_quantity (demoProduct 10 100) + sip_quantity (receipt 10 120) \<le> 2 ^ 53 \<and>
   0 \<le> sip_unitCost (receipt 10 120) \<and> sip_unitCost (receipt 10 120) \<le> 10 ^ 12 \<and>
   round2 (sip_unitCost (receipt 10 120)) = sip_unitCost (receipt 10 120) \<and>
   0 \<le> p_wac_cost (demoProduct 10 100) \<and> p_wac_cost (demoProduct 10 100) \<le> 10 ^ 12 \<and>
   round2 (p_wac_cost (demoProduct 10 100)) = p_wac_cost (demoProduct 10 100) \<and>
   (\<exists>updatedProducts result.
      performStockIn demoEnv [demoProduct 10 100] (receipt 10 120)
        = Inr (updatedProducts, result) \<and>
      100 \<le> p_wac_cost (sir_product result) \<and> p_wac_cost (sir_product result) \<le> 120)"
proof -
  have found: "array_find (\<lambda>p. p_id p = sip_productId (receipt 10 120)) [demoProduct 10 100]
     = Some (demoProduct 10 100)"
    by (simp add: receipt_def)
  have qty: "0 < sip_quantity (receipt 10 120)" "sip_quantity (receipt 10 120) \<in> \<int>"
    by (simp_all add: receipt_def)
  have stock: "0 \<le> p_quantity (demoProduct 10 100)" "p_quantity (demoProduct 10 100) \<in> \<int>"
      "p_quantity (demoProduct 10 100) + sip_quantity (receipt 10 120) \<le> 2 ^ 53"
    by (simp_all add: receipt_def)
  have cost: "0 \<le> sip_unitCost (receipt 10 120)" "sip_unitCost (receipt 10 120) \<le> 10 ^ 12"
      "round2 (sip_unitCost (receipt 10 120)) = sip_unitCost (receipt 10 120)"
    by (simp_all add: receipt_def round2_numeral)
  have wac: "0 \<le> p_wac_cost (demoProduct 10 100)" "p_wac_cost (demoProduct 10 100) \<le> 10 ^ 12"
      "round2 (p_wac_cost (demoProduct 10 100)) = p_wac_cost (demoProduct 10 100)"
    by (simp_all add: round2_numeral)
  have w: "p_wac_cost (demoProduct 10 100) = 100" "sip_unitCost (receipt 10 120) = 120"
    by (simp_all add: receipt_def)
  from performStockIn_rounded_wac_between [OF found qty stock cost wac, of demoEnv]
  have "\<exists>updatedProducts result.
      performStockIn demoEnv [demoProduct 10 100] (receipt 10 120)
        = Inr (updatedProducts, result) \<and>
      100 \<le> p_wac_cost (sir_product result) \<and> p_wac_cost (sir_product result) \<le> 120"
    unfolding w by auto
  then show ?thesis
    using found qty stock cost wac by blast
qed

text \<open>
  Without that restriction the rounded cost can leave the interval: one unit at 0.125
  added to one unit at 0.125 is stored at 0.13.
\<close>

theorem rounded_wac_between_counterexample:
  "0 < sip_quantity (receipt 1 (1 / 8)) \<and> 0 \<le> sip_unitCost (receipt 1 (1 / 8)) \<and>
   0 \<le> p_quantity (demoProduct 1 (1 / 8)) \<and>
   stockAndCost (performStockIn demoEnv [demoProduct 1 (1 / 8)] (receipt 1 (1 / 8)))
     = Inr [(2, 1170935903116329 / 9007199254740992)] \<and>
   \<not> (1170935903116329 / 9007199254740992 :: rat)
        \<le> max (p_wac_cost (demoProduct 1 (1 / 8))) (sip_unitCost (receipt 1 (1 / 8)))"
proof -
  have w: "calculateNewWAC 1 (1 / 8) 1 (1 / 8) = 1 / 8"
    by (simp add: calculateNewWAC_eq double_eighth double_quarter)
  have "stockAndCost (performStockIn demoEnv [demoProduct 1 (1 / 8)] (receipt 1 (1 / 8)))
     = Inr [(2, 1170935903116329 / 9007199254740992)]"
    by (simp only: stockAndCost_receipt w round2_eighth) simp
  then show ?thesis
    by (simp add: receipt_def)
qed

text \<open>
  Claim C8, as the code has it. \<^verbatim>\<open>performStockIn\<close> fails in one case only: when no
  product has the given id, with the "not found" error and nothing returned. On an
  existing product it succeeds for every quantity and every unit cost: the product's
  quantity becomes the sum, its last cost the unit cost, and a purchase movement of
  that quantity is returned.
\<close>

theorem performStockIn_only_failure:
  "(array_find (\<lambda>p. p_id p = sip_productId params) products = None \<longrightarrow>
      performStockIn e products params = Inl (ProductWithIDNotFound (sip_productId params))) \<and>
   (\<forall>product. array_find (\<lambda>p. p_id p = sip_productId params) products = Some product \<longrightarrow>
      (\<exists>updatedProducts result.
         performStockIn e products params = Inr (updatedProducts, result) \<and>
         array_find (\<lambda>p. p_id p = sip_productId params) updatedProducts
           = Some (sir_product result) \<and>
         p_quantity (sir_product result) = p_quantity product + sip_quantity params \<and>
         p_cost_price (sir_product result) = sip_unitCost params \<and>
         sm_type (sir_stockMovement result) = Purchase \<and>
         sm_quantity (sir_stockMovement result) = sip_quantity params))"
proof (intro conjI allI impI)
  assume "array_find (\<lambda>p. p_id p = sip_productId params) products = None"
  then show "performStockIn e products params = Inl (ProductWithIDNotFound (sip_productId params))"
    by (simp add: performStockIn_def)
next
  fix product
  assume found: "array_find (\<lambda>p. p_id p = sip_productId params) products = Some product"
  let ?u = "\<lambda>y::Product. product \<lparr> p_cost_price := sip_unitCost params,
                          p_quantity := p_quantity product + sip_quantity params,
                          p_wac_cost := round2 (calculateNewWAC (p_quantity product)
                             (p_wac_cost product) (sip_quantity params) (sip_unitCost params)),
                          p_updated_at := now e \<rparr>"
  have pid: "p_id product = sip_productId params"
    using array_find_SomeD [OF found] by simp
  have stored: "array_find (\<lambda>p. p_id p = sip_productId params)
      (map (\<lambda>p. if p_id p = sip_productId params then ?u p else p) products) = Some (?u product)"
    by (rule array_find_map_update [OF found]) (simp add: pid)
  show "\<exists>updatedProducts result.
         performStockIn e products params = Inr (updatedProducts, result) \<and>
         array_find (\<lambda>p. p_id p = sip_productId params) updatedProducts
           = Some (sir_product result) \<and>
         p_quantity (sir_product result) = p_quantity product + sip_quantity params \<and>
         p_cost_price (sir_product result) = sip_unitCost params \<and>
         sm_type (sir_stockMovement result) = Purchase \<and>
         sm_quantity (sir_stockMovement result) = sip_quantity params"
    unfolding performStockIn_Some [OF found] using stored by simp
qed

theorem performStockIn_only_failure_witness:
  "array_find (\<lambda>p. p_id p = sip_productId (receipt (- 10) (- 1))) [] = None \<and>
   performStockIn demoEnv [] (receipt (- 10) (- 1)) = Inl (ProductWithIDNotFound 1) \<and>
   array_find (\<lambda>p. p_id p = sip_productId (receipt (- 10) (- 1))) [demoProduct 5 100]
     = Some (demoProduct 5 100) \<and>
   (\<exists>updatedProducts result.
      performStockIn demoEnv [demoProduct 5 100] (receipt (- 10) (- 1))
        = Inr (updatedProducts, result) \<and>
      p_quantity (sir_product result) = - 5 \<and> p_cost_price (sir_product result) = - 1 \<and>
      sm_quantity (sir_stockMovement result) = - 10)"
proof -
  note main = performStockIn_only_failure
  have none: "array_find (\<lambda>p. p_id p = sip_productId (receipt (- 10) (- 1))) [] = None"
    by simp
  have found: "array_find (\<lambda>p. p_id p = sip_productId (receipt (- 10) (- 1)))
      [demoProduct 5 100] = Some (demoProduct 5 100)"
    by (simp add: receipt_def demoProduct_def)
  have "performStockIn demoEnv [] (receipt (- 10) (- 1)) = Inl (ProductWithIDNotFound 1)"
    using main [of "receipt (- 10) (- 1)" "[]" demoEnv] none by (simp add: receipt_def)
  moreover have "\<exists>updatedProducts result.
      performStockIn demoEnv [demoProduct 5 100] (receipt (- 10) (- 1))
        = Inr (updatedProducts, result) \<and>
      p_quantity (sir_product result) = - 5 \<and> p_cost_price (sir_product result) = - 1 \<and>
      sm_quantity (sir_stockMovement result) = - 10"
    using main [of "receipt (- 10) (- 1)" "[demoProduct 5 100]" demoEnv] found
    by (auto simp: receipt_def demoProduct_def)
  ultimately show ?thesis using none found by blast
qed

text \<open>
  A receipt of -10 units at a unit cost of -1 on a product with 5 units is not
  rejected: it drives the quantity to -5.
\<close>

theorem invalid_receipt_counterexample:
  "sip_quantity (receipt (- 10) (- 1)) \<le> 0 \<and> sip_unitCost (receipt (- 10) (- 1)) < 0 \<and>
   \<not> isl (performStockIn demoEnv [demoProduct 5 100] (receipt (- 10) (- 1))) \<and>
   stockAndCost (performStockIn demoEnv [demoProduct 5 100] (receipt (- 10) (- 1)))
     = Inr [(- 5, 0)]"
  by (simp add: stockAndCost_receipt calculateNewWAC_eq round2_zero)
     (simp add: performStockIn_def demoProduct_def receipt_def Let_def)

section \<open>Sales\<close>

text \<open>
  Claim C1, as the code has it. \<^verbatim>\<open>createCashSale\<close> checks no stock and never fails:
  it reports success for every line set, returns as many products as it was given and
  leaves a product that no line refers to as it is. For a line set in which no two
  lines refer to the same product, a product that a line refers to gets the larger of
  0 and the difference of the two quantities as its quantity: a line asking for at
  most the stock lowers it by the quantity of the line, and a line asking for more
  empties it.
\<close>

theorem createCashSale_clamps_stock:
  "sr_success (fst (createCashSale e params products)) \<and>
   length (snd (createCashSale e params products)) = length products \<and>
   (\<forall>i<length products.
      (\<forall>item\<in>set (sp_items params). p_id (ci_product item) \<noteq> p_id (products ! i)) \<longrightarrow>
      snd (createCashSale e params products) ! i = products ! i) \<and>
   (distinct (map (\<lambda>item. p_id (ci_product item)) (sp_items params)) \<longrightarrow>
      (\<forall>i<length products. \<forall>item\<in>set (sp_items params).
         p_id (ci_product item) = p_id (products ! i) \<longrightarrow>
         snd (createCashSale e params products) ! i =
           (products ! i)
             \<lparr> p_quantity := max 0 (p_quantity (products ! i) - ci_quantity item),
               p_updated_at := now e \<rparr> \<and>
         (ci_quantity item \<le> p_quantity (products ! i) \<longrightarrow>
            p_quantity (snd (createCashSale e params products) ! i)
              = p_quantity (products ! i) - ci_quantity item)))"
proof (intro conjI impI allI ballI)
  show "sr_success (fst (createCashSale e params products))"
    by (rule createCashSale_success)
  show "length (snd (createCashSale e params products)) = length products"
    by (simp add: createCashSale_products sellProducts_length)
next
  fix i
  assume "i < length products"
    and "\<forall>item\<in>set (sp_items params). p_id (ci_product item) \<noteq> p_id (products ! i)"
  then show "snd (createCashSale e params products) ! i = products ! i"
    by (simp add: createCashSale_products sellProducts_frame)
next
  fix i item
  assume d: "distinct (map (\<lambda>item. p_id (ci_product item)) (sp_items params))"
    and i: "i < length products" and item: "item \<in> set (sp_items params)"
    and same: "p_id (ci_product item) = p_id (products ! i)"
  show line: "snd (createCashSale e params products) ! i =
           (products ! i)
             \<lparr> p_quantity := max 0 (p_quantity (products ! i) - ci_quantity item),
               p_updated_at := now e \<rparr>"
    by (simp only: createCashSale_products sellProducts_line [OF d i item same])
  assume "ci_quantity item \<le> p_quantity (products ! i)"
  then show "p_quantity (snd (createCashSale e params products) ! i)
              = p_quantity (products ! i) - ci_quantity item"
    by (simp add: line)
qed

theorem createCashSale_clamps_stock_witness:
  "distinct (map (\<lambda>item. p_id (ci_product item))
      (sp_items (cashParams [cartLine (demoProduct 5 100) 2 50]))) \<and>
   cartLine (demoProduct 5 100) 2 50
     \<in> set (sp_items (cashParams [cartLine (demoProduct 5 100) 2 50])) \<and>
   p_id (ci_product (cartLine (demoProduct 5 100) 2 50)) = p_id ([demoProduct 5 100] ! 0) \<and>
   ci_quantity (cartLine (demoProduct 5 100) 2 50) \<le> p_quantity ([demoProduct 5 100] ! 0) \<and>
   sr_success (fst (createCashSale demoEnv (cashParams [cartLine (demoProduct 5 100) 2 50])
                      [demoProduct 5 100])) \<and>
   p_quantity (snd (createCashSale demoEnv (cashParams [cartLine (demoProduct 5 100) 2 50])
                      [demoProduct 5 100]) ! 0) = 3 \<and>
   snd (createCashSale demoEnv (cashParams [cartLine (demoProduct 5 100) 6 50])
          [demoProduct 5 100]) ! 0
     = (demoProduct 5 100) \<lparr> p_quantity := 0, p_updated_at := 1000 \<rparr>"
proof -
  let ?line = "cartLine (demoProduct 5 100) 2 50"
  note main = createCashSale_clamps_stock [of demoEnv "cashParams [?line]" "[demoProduct 5 100]"]
  have d: "distinct (map (\<lambda>item. p_id (ci_product item)) (sp_items (cashParams [?line])))"
    by (simp add: cashParams_def)
  have item: "?line \<in> set (sp_items (cashParams [?line]))"
    by (simp add: cashParams_def)
  have same: "p_id (ci_product ?line) = p_id ([demoProduct 5 100] ! 0)"
    by (simp add: cartLine_def)
  have within: "ci_quantity ?line \<le> p_quantity ([demoProduct 5 100] ! 0)"
    by (simp add: cartLine_def)
  have ok: "sr_success (fst (createCashSale demoEnv (cashParams [?line]) [demoProduct 5 100]))"
    using main by blast
  have "p_quantity (snd (createCashSale demoEnv (cashParams [?line]) [demoProduct 5 100]) ! 0)
      = p_quantity ([demoProduct 5 100] ! 0) - ci_quantity ?line"
    using main d item same within by auto
  then have less: "p_quantity (snd (createCashSale demoEnv (cashParams [?line])
      [demoProduct 5 100]) ! 0) = 3"
    by (simp add: cartLine_def)
  show ?thesis
    using d item same within ok less by (simp add: cash_sale_example)
qed

text \<open>
  The scenario of the specification, on the code: a cash sale of 6 units of a product
  holding 5 succeeds and leaves the product with 0 units.
\<close>

theorem oversold_cash_sale_counterexample:
  "p_quantity (demoProduct 5 100) = 5 \<and>
   map ci_quantity (sp_items (cashParams [cartLine (demoProduct 5 100) 6 50])) = [6] \<and>
   sr_success (fst (createCashSale demoEnv (cashParams [cartLine (demoProduct 5 100) 6 50])
                      [demoProduct 5 100])) \<and>
   map p_quantity (snd (createCashSale demoEnv (cashParams [cartLine (demoProduct 5 100) 6 50])
                          [demoProduct 5 100])) = [0]"
  by (simp add: createCashSale_success cash_sale_example)
     (simp add: demoProduct_def cashParams_def cartLine_def)




text \<open>
  Claim C10. A credit sale that succeeds returns the product list and the customer
  list at their lengths, every product whose id no cart line refers to unchanged at
  its position and every customer with another id than the sale's unchanged at its
  position; a payment that succeeds does the same for every customer with another id
  than the paying one.
\<close>

theorem sale_and_payment_frame:
  "(createKhataSale e params products customers ledgerEntries = Inr out \<longrightarrow>
      length (ks_updatedProducts out) = length products \<and>
      (\<forall>i<length products.
         (\<forall>item\<in>set (ksp_items params). p_id (ci_product item) \<noteq> p_id (products ! i)) \<longrightarrow>
         ks_updatedProducts out ! i = products ! i) \<and>
      length (ks_updatedCustomers out) = length customers \<and>
      (\<forall>i<length customers.
         c_id (customers ! i) \<noteq> ksp_customerId params \<longrightarrow>
         ks_updatedCustomers out ! i = customers ! i)) \<and>
   (recordKhataPayment e' customerId amount userId customers' ledgerEntries' description
      = Inr (updatedCustomers, entry) \<longrightarrow>
      length updatedCustomers = length customers' \<and>
      (\<forall>i<length customers'.
         c_id (customers' ! i) \<noteq> customerId \<longrightarrow> updatedCustomers ! i = customers' ! i))"
proof (intro conjI impI)
  assume sale: "createKhataSale e params products customers ledgerEntries = Inr out"
  from createKhataSale_InrD [OF sale] obtain customer :: Customer where
    ps: "ks_updatedProducts out = sellProducts e (ksp_items params) products" and
    cs: "ks_updatedCustomers out =
       setBalance e (ksp_customerId params)
         (c_credit_balance customer
            + t_netAmount (calculateSaleTotals (ksp_items params) (ksp_discount params)))
         customers"
    by auto
  show "length (ks_updatedProducts out) = length products"
    by (simp add: ps sellProducts_length)
  show "\<forall>i<length products.
         (\<forall>item\<in>set (ksp_items params). p_id (ci_product item) \<noteq> p_id (products ! i)) \<longrightarrow>
         ks_updatedProducts out ! i = products ! i"
    by (simp add: ps sellProducts_frame)
  show "length (ks_updatedCustomers out) = length customers"
    by (simp add: cs setBalance_length)
  show "\<forall>i<length customers.
         c_id (customers ! i) \<noteq> ksp_customerId params \<longrightarrow>
         ks_updatedCustomers out ! i = customers ! i"
    by (simp add: cs setBalance_frame)
next
  assume pay: "recordKhataPayment e' customerId amount userId customers' ledgerEntries'
      description = Inr (updatedCustomers, entry)"
  from recordKhataPayment_InrD [OF pay] obtain customer :: Customer where
    cs: "updatedCustomers = setBalance e' customerId (c_credit_balance customer - amount) customers'"
    by auto
  show "length updatedCustomers = length customers'"
    by (simp add: cs setBalance_length)
  show "\<forall>i<length customers'.
         c_id (customers' ! i) \<noteq> customerId \<longrightarrow> updatedCustomers ! i = customers' ! i"
    by (simp add: cs setBalance_frame)
qed

theorem sale_and_payment_frame_witness:
  "(\<exists>out. createKhataSale demoEnv (khataParams 3 [cartLine (demoProduct 5 30) 2 50])
             [demoProduct 5 30, (demoProduct 8 950) \<lparr> p_id := 2 \<rparr>]
             [demoCustomer 3 0, demoCustomer 4 8500] [] = Inr out \<and>
           ks_updatedProducts out ! 1 = (demoProduct 8 950) \<lparr> p_id := 2 \<rparr> \<and>
           ks_updatedCustomers out ! 1 = demoCustomer 4 8500) \<and>
   (\<exists>updatedCustomers entry.
      recordKhataPayment demoEnv 3 40 1 [demoCustomer 3 100, demoCustomer 4 8500] [] None
        = Inr (updatedCustomers, entry) \<and>
      updatedCustomers ! 1 = demoCustomer 4 8500)"
proof -
  let ?params = "khataParams 3 [cartLine (demoProduct 5 30) 2 50]"
  let ?products = "[demoProduct 5 30, (demoProduct 8 950) \<lparr> p_id := 2 \<rparr>]"
  let ?customers = "[demoCustomer 3 0, demoCustomer 4 8500]"
  let ?customers' = "[demoCustomer 3 100, demoCustomer 4 8500]"
  have "array_find (\<lambda>c. c_id c = ksp_customerId ?params) ?customers = Some (demoCustomer 3 0)"
    by (simp add: khataParams_def)
  from createKhataSale_found [OF this, of demoEnv ?products "[]"]
  obtain out where out: "createKhataSale demoEnv ?params ?products ?customers [] = Inr out"
    by blast
  have "array_find (\<lambda>c. c_id c = 3) ?customers' = Some (demoCustomer 3 100)"
    by simp
  from recordKhataPayment_found [OF this, of demoEnv 40 1 "[]" None]
  obtain updatedCustomers entry where
    pay: "recordKhataPayment demoEnv 3 40 1 ?customers' [] None = Inr (updatedCustomers, entry)"
    by blast
  note frame = sale_and_payment_frame [of demoEnv ?params ?products ?customers "[]" out
      demoEnv 3 40 1 ?customers' "[]" None updatedCustomers entry]
  have other_product:
    "\<forall>item\<in>set (ksp_items ?params). p_id (ci_product item) \<noteq> p_id (?products ! 1)"
    by (simp add: khataParams_def cartLine_def)
  have other_customer: "c_id (?customers ! 1) \<noteq> ksp_customerId ?params"
    "c_id (?customers' ! 1) \<noteq> 3"
    by (simp_all add: khataParams_def)
  have "ks_updatedProducts out ! 1 = ?products ! 1"
    using frame out other_product by simp
  moreover have "ks_updatedCustomers out ! 1 = ?customers ! 1"
    using frame out other_customer by simp
  moreover have "updatedCustomers ! 1 = ?customers' ! 1"
    using frame pay other_customer by simp
  ultimately show ?thesis
    using out pay by simp
qed

section \<open>Invariants of the store\<close>




text \<open>
  Claim C5, as the code has it. After every sequence of committed operations, and so
  after every sequence of credit sales and payments, the ledger is the ledger of the
  start followed by the entries the sequence appended, and for every customer: if the
  sequence appended an entry for that customer, the stored credit balance equals the
  running balance of the entry appended last for that customer; if it appended none,
  the customer is as the start had it. So a customer without any entry has the
  balance 0 only if it had that balance at the start, and if at the start every
  balance equals the running balance of the customer's last entry (0 when there is
  none), the same holds at the end.
\<close>

theorem balance_matches_last_entry:
  "st_ledgers (run st ops) = st_ledgers st @ appendedEntries st ops \<and>
   (\<forall>c\<in>set (st_customers (run st ops)).
      ((\<exists>entry\<in>set (appendedEntries st ops). le_customer_id entry = c_id c) \<longrightarrow>
         c_credit_balance c = lastRunningBalance (c_id c) (st_ledgers (run st ops))) \<and>
      ((\<forall>entry\<in>set (appendedEntries st ops). le_customer_id entry \<noteq> c_id c) \<longrightarrow>
         c \<in> set (st_customers st))) \<and>
   (balancesMatchLedger st \<longrightarrow> balancesMatchLedger (run st ops))"
proof -
  from ledger_tracking [of st ops] obtain new
    where led: "st_ledgers (run st ops) = st_ledgers st @ new"
      and cs: "\<forall>c\<in>set (st_customers (run st ops)).
        ((\<exists>entry\<in>set new. le_customer_id entry = c_id c) \<longrightarrow>
           c_credit_balance c = lastRunningBalance (c_id c) (st_ledgers (run st ops))) \<and>
        ((\<forall>entry\<in>set new. le_customer_id entry \<noteq> c_id c) \<longrightarrow> c \<in> set (st_customers st))"
    by blast
  have new: "appendedEntries st ops = new"
    by (simp add: appendedEntries_def led)
  show ?thesis
    unfolding new
  proof (intro conjI)
    show "st_ledgers (run st ops) = st_ledgers st @ new"
      by (rule led)
    show "\<forall>c\<in>set (st_customers (run st ops)).
        ((\<exists>entry\<in>set new. le_customer_id entry = c_id c) \<longrightarrow>
           c_credit_balance c = lastRunningBalance (c_id c) (st_ledgers (run st ops))) \<and>
        ((\<forall>entry\<in>set new. le_customer_id entry \<noteq> c_id c) \<longrightarrow> c \<in> set (st_customers st))"
      by (rule cs)
    show "balancesMatchLedger st \<longrightarrow> balancesMatchLedger (run st ops)"
      by (simp add: balancesMatchLedger_run)
  qed
qed

text \<open>
  From a seeded customer with balance 15000 and a customer with balance 0, neither with
  a ledger entry: a credit sale of 100 and a payment of 40 for the second leave its
  balance at 60, the running balance of the entry appended last, and leave the first as
  it was. From the second customer alone, every balance matches the ledger before and
  after.
\<close>

theorem balance_matches_last_entry_witness:
  "(demoCustomer 3 0) \<lparr> c_credit_balance := 60, c_updated_at := 1000 \<rparr>
     \<in> set (st_customers (run demoSeededStore demoLedgerOperations)) \<and>
   map le_customer_id (appendedEntries demoSeededStore demoLedgerOperations) = [3, 3] \<and>
   c_credit_balance ((demoCustomer 3 0) \<lparr> c_credit_balance := 60, c_updated_at := 1000 \<rparr>)
     = lastRunningBalance 3 (st_ledgers (run demoSeededStore demoLedgerOperations)) \<and>
   demoCustomer 1 15000 \<in> set (st_customers (run demoSeededStore demoLedgerOperations)) \<and>
   demoCustomer 1 15000 \<in> set (st_customers demoSeededStore) \<and>
   balancesMatchLedger (demoStore [demoProduct 5 30] [demoCustomer 3 0]) \<and>
   balancesMatchLedger (run (demoStore [demoProduct 5 30] [demoCustomer 3 0])
                          demoLedgerOperations)"
proof -
  let ?c = "(demoCustomer 3 0) \<lparr> c_credit_balance := 60, c_updated_at := 1000 \<rparr>"
  note main = balance_matches_last_entry [of demoSeededStore demoLedgerOperations]
  have led0: "st_ledgers demoSeededStore = []"
    by (simp add: demoSeededStore_def demoStore_def)
  have app: "appendedEntries demoSeededStore demoLedgerOperations
      = st_ledgers (run demoSeededStore demoLedgerOperations)"
    by (simp add: appendedEntries_def led0)
  have ids: "map le_customer_id (appendedEntries demoSeededStore demoLedgerOperations) = [3, 3]"
    using demoSeededStore_run by (simp add: app)
  have mem: "?c \<in> set (st_customers (run demoSeededStore demoLedgerOperations))"
    and mem1: "demoCustomer 1 15000 \<in> set (st_customers (run demoSeededStore demoLedgerOperations))"
    using demoSeededStore_run by simp_all
  have "3 \<in> set (map le_customer_id (appendedEntries demoSeededStore demoLedgerOperations))"
    by (simp add: ids)
  then have touched: "\<exists>entry\<in>set (appendedEntries demoSeededStore demoLedgerOperations).
      le_customer_id entry = c_id ?c"
    by auto
  have id: "c_id ?c = 3"
    by simp
  from main have "\<forall>c\<in>set (st_customers (run demoSeededStore demoLedgerOperations)).
      ((\<exists>entry\<in>set (appendedEntries demoSeededStore demoLedgerOperations).
          le_customer_id entry = c_id c) \<longrightarrow>
         c_credit_balance c
           = lastRunningBalance (c_id c)
               (st_ledgers (run demoSeededStore demoLedgerOperations))) \<and>
      ((\<forall>entry\<in>set (appendedEntries demoSeededStore demoLedgerOperations).
          le_customer_id entry \<noteq> c_id c) \<longrightarrow>
         c \<in> set (st_customers demoSeededStore))"
    by (rule conjunct1 [OF conjunct2])
  from bspec [OF this mem] touched
  have "c_credit_balance ?c
      = lastRunningBalance (c_id ?c) (st_ledgers (run demoSeededStore demoLedgerOperations))"
    by (rule mp [OF conjunct1])
  then have bal: "c_credit_balance ?c
      = lastRunningBalance 3 (st_ledgers (run demoSeededStore demoLedgerOperations))"
    by (simp only: id)
  have old: "demoCustomer 1 15000 \<in> set (st_customers demoSeededStore)"
    by (simp add: demoSeededStore_def demoStore_def)
  have start: "balancesMatchLedger (demoStore [demoProduct 5 30] [demoCustomer 3 0])"
    by (simp add: balancesMatchLedger_def demoStore_def lastRunningBalance_def)
  from balance_matches_last_entry [of "demoStore [demoProduct 5 30] [demoCustomer 3 0]"
        demoLedgerOperations]
  have "balancesMatchLedger (demoStore [demoProduct 5 30] [demoCustomer 3 0]) \<longrightarrow>
      balancesMatchLedger (run (demoStore [demoProduct 5 30] [demoCustomer 3 0])
        demoLedgerOperations)"
    by (rule conjunct2 [OF conjunct2])
  then have after: "balancesMatchLedger (run (demoStore [demoProduct 5 30] [demoCustomer 3 0])
      demoLedgerOperations)"
    using start by (rule mp)
  show ?thesis
    by (intro conjI) (rule mem ids bal mem1 old start after)+
qed

text \<open>
  In that seeded store the first customer has the balance 15000 and no ledger entry,
  before and after the sale and the payment of the second: not the balance 0.
\<close>

theorem seeded_balance_counterexample:
  "map c_credit_balance (st_customers (run demoSeededStore demoLedgerOperations))
     = [15000, 60] \<and>
   filter (\<lambda>entry. le_customer_id entry = 1)
     (st_ledgers (run demoSeededStore demoLedgerOperations)) = [] \<and>
   lastRunningBalance 1 (st_ledgers (run demoSeededStore demoLedgerOperations)) = 0 \<and>
   \<not> balancesMatchLedger (run demoSeededStore demoLedgerOperations)"
proof -
  let ?st = "run demoSeededStore demoLedgerOperations"
  have cs: "st_customers ?st
      = [demoCustomer 1 15000,
         (demoCustomer 3 0) \<lparr> c_credit_balance := 60, c_updated_at := 1000 \<rparr>]"
    and ids: "map le_customer_id (st_ledgers ?st) = [3, 3]"
    using demoSeededStore_run by blast+
  have "le_customer_id entry \<noteq> 1" if "entry \<in> set (st_ledgers ?st)" for entry
  proof -
    from that have "le_customer_id entry \<in> set (map le_customer_id (st_ledgers ?st))"
      by simp
    then have "le_customer_id entry \<in> set [3, 3]"
      by (simp only: ids)
    then show ?thesis
      by simp
  qed
  then have none: "filter (\<lambda>entry. le_customer_id entry = 1) (st_ledgers ?st) = []"
    by (simp add: filter_empty_conv)
  then have zero: "lastRunningBalance 1 (st_ledgers ?st) = 0"
    by (simp add: lastRunningBalance_def)
  have bals: "map c_credit_balance (st_customers ?st) = [15000, 60]"
    by (simp add: cs)
  have "\<not> balancesMatchLedger ?st"
  proof
    assume "balancesMatchLedger ?st"
    then have "c_credit_balance (demoCustomer 1 15000)
        = lastRunningBalance (c_id (demoCustomer 1 15000)) (st_ledgers ?st)"
      by (simp add: balancesMatchLedger_def cs)
    then show False
      by (simp add: zero)
  qed
  with bals none zero show ?thesis
    by blast
qed

section \<open>Reports\<close>




text \<open>
  Claim C9, as the code has it. The statement of a customer holds exactly the entries
  of that customer, each as often as the ledger does, ordered by creation time
  descending; entries of one creation time keep the order they have in the ledger
  (the sort is stable and compares creation times only).
\<close>

theorem getCustomerLedgerStatement_stable:
  "mset (getCustomerLedgerStatement customerId ledgerEntries)
     = mset (filter (\<lambda>e. le_customer_id e = customerId) ledgerEntries) \<and>
   sorted_wrt (\<lambda>a b. le_created_at b \<le> le_created_at a)
     (getCustomerLedgerStatement customerId ledgerEntries) \<and>
   (\<forall>t. filter (\<lambda>e. le_created_at e = t) (getCustomerLedgerStatement customerId ledgerEntries)
        = filter (\<lambda>e. le_created_at e = t)
            (filter (\<lambda>e. le_customer_id e = customerId) ledgerEntries))"
  unfolding getCustomerLedgerStatement_def
  by (simp only: mset_array_sort sorted_array_sort filter_array_sort simp_thms)

theorem getCustomerLedgerStatement_stable_witness:
  "getCustomerLedgerStatement 3
     [demoEntry 1 3 100, demoEntry 2 3 100, demoEntry 3 4 300, demoEntry 4 3 200]
   = [demoEntry 4 3 200, demoEntry 1 3 100, demoEntry 2 3 100] \<and>
   filter (\<lambda>e. le_created_at e = 100)
     (getCustomerLedgerStatement 3
        [demoEntry 1 3 100, demoEntry 2 3 100, demoEntry 3 4 300, demoEntry 4 3 200])
   = [demoEntry 1 3 100, demoEntry 2 3 100]"
proof -
  from getCustomerLedgerStatement_stable [of 3
      "[demoEntry 1 3 100, demoEntry 2 3 100, demoEntry 3 4 300, demoEntry 4 3 200]"]
  have "filter (\<lambda>e. le_created_at e = 100)
     (getCustomerLedgerStatement 3
        [demoEntry 1 3 100, demoEntry 2 3 100, demoEntry 3 4 300, demoEntry 4 3 200])
   = filter (\<lambda>e. le_created_at e = 100)
       (filter (\<lambda>e. le_customer_id e = 3)
          [demoEntry 1 3 100, demoEntry 2 3 100, demoEntry 3 4 300, demoEntry 4 3 200])"
    by blast
  then show ?thesis
    by (simp add: demo_statement) (simp add: demoEntry_def)
qed

text \<open>
  Two entries of one creation time, listed with ids 1 and 2, come out as 1 and 2: not
  by id descending.
\<close>

theorem statement_tie_counterexample:
  "map le_created_at (getCustomerLedgerStatement 3 [demoEntry 1 3 100, demoEntry 2 3 100])
     = [100, 100] \<and>
   map le_id (getCustomerLedgerStatement 3 [demoEntry 1 3 100, demoEntry 2 3 100]) = [1, 2] \<and>
   \<not> sorted_wrt statementOrder_spec
       (getCustomerLedgerStatement 3 [demoEntry 1 3 100, demoEntry 2 3 100])"
  by (simp add: getCustomerLedgerStatement_def array_sort_def demoEntry_def
        statementOrder_spec_def)

end
